theory Spec2Isabelle
  imports Complex_Main "HOL-Library.Option_ord" "HOL-Library.Multiset"
begin

section \<open>JavaScript strings and numbers used by the record transformer\<close>

text \<open>
  A JavaScript string is modelled as a \<^typ>\<open>string\<close>: one \<^typ>\<open>char\<close> per code unit, for
  the code units below 256 (ASCII and Latin-1). Code units above that range are outside
  the model. A column that can be SQL NULL is an \<open>option\<close>, with \<open>None\<close> for
  \<open>null\<close>/\<open>undefined\<close>.
\<close>

text \<open>The values that the code throws or that a promise rejects with: \<open>undefined\<close>, \<open>null\<close>,
  and objects of the classes \<open>TypeError\<close> and \<open>Error\<close> with their message.\<close>

datatype thrown = Undefined | Null | TypeError string | Error string

text \<open>White space as \<open>String.prototype.trim\<close> and \<open>parseInt\<close> strip it (TAB, LF, VT, FF,
  CR, SP, NBSP).\<close>

definition isWhiteSpace :: "char \<Rightarrow> bool" where
  "isWhiteSpace c = (of_char c \<in> set [9, 10, 11, 12, 13, 32, 160 :: nat])"

definition trim :: "string \<Rightarrow> string" where
  "trim s = rev (dropWhile isWhiteSpace (rev (dropWhile isWhiteSpace s)))"

text \<open>The character class \<open>\d\<close> of a regular expression without the unicode flag.\<close>

definition isDigit :: "char \<Rightarrow> bool" where
  "isDigit c = (48 \<le> (of_char c :: nat) \<and> (of_char c :: nat) \<le> 57)"

text \<open>The value of a character as a digit of radix 16, if it is one.\<close>

definition hexVal :: "char \<Rightarrow> nat option" where
  "hexVal c = (let n = (of_char c :: nat) in
     if 48 \<le> n \<and> n \<le> 57 then Some (n - 48)
     else if 97 \<le> n \<and> n \<le> 102 then Some (n - 87)
     else if 65 \<le> n \<and> n \<le> 70 then Some (n - 55)
     else None)"

definition isHexDigit :: "char \<Rightarrow> bool" where
  "isHexDigit c = (hexVal c \<noteq> None)"

text \<open>\<open>String.prototype.toLowerCase\<close> on the code units of the model: the letters A-Z and
  the Latin-1 capitals move by 32, everything else stays.\<close>

definition toLowerChar :: "char \<Rightarrow> char" where
  "toLowerChar c = (let n = (of_char c :: nat) in
     if (65 \<le> n \<and> n \<le> 90) \<or> (192 \<le> n \<and> n \<le> 222 \<and> n \<noteq> 215) then char_of (n + 32) else c)"

definition toLowerCase :: "string \<Rightarrow> string" where
  "toLowerCase s = map toLowerChar s"

text \<open>A JavaScript number as far as \<open>parseInt\<close> produces one: \<open>NaN\<close> or an integer.\<close>

datatype js_number = NaN | Num int

definition hexValue :: "string \<Rightarrow> nat" where
  "hexValue ds = foldl (\<lambda>acc c. case hexVal c of Some v \<Rightarrow> 16 * acc + v | None \<Rightarrow> acc) 0 ds"

text \<open>
  \<open>parseInt(s, 16)\<close>: leading white space is skipped, then an optional sign, then an
  optional \<open>0x\<close>/\<open>0X\<close> prefix; the longest run of hexadecimal digits that follows is the
  value, and \<open>NaN\<close> is returned when that run is empty.
\<close>

definition stripSign :: "string \<Rightarrow> bool \<times> string" where
  "stripSign s = (case s of
       c # r \<Rightarrow> if c = CHR ''-'' then (True, r) else if c = CHR ''+'' then (False, r) else (False, s)
     | [] \<Rightarrow> (False, s))"

definition stripHexPrefix :: "string \<Rightarrow> string" where
  "stripHexPrefix s = (case s of
       a # b # r \<Rightarrow> if a = CHR ''0'' \<and> (b = CHR ''x'' \<or> b = CHR ''X'') then r else s
     | _ \<Rightarrow> s)"

definition parseInt16 :: "string \<Rightarrow> js_number" where
  "parseInt16 s =
     (let (neg, r) = stripSign (dropWhile isWhiteSpace s);
          ds = takeWhile isHexDigit (stripHexPrefix r)
      in if ds = [] then NaN
         else Num (if neg then - int (hexValue ds) else int (hexValue ds)))"

fun toDecimal :: "nat \<Rightarrow> string" where
  "toDecimal n = (if n < 10 then [char_of (48 + n)]
                  else toDecimal (n div 10) @ [char_of (48 + n mod 10)])"

declare toDecimal.simps [simp del]

text \<open>\<open>Number.prototype.toString()\<close> for the numbers above.\<close>

fun numToString :: "js_number \<Rightarrow> string" where
  "numToString NaN = ''NaN''"
| "numToString (Num i) = (if i < 0 then CHR ''-'' # toDecimal (nat (- i)) else toDecimal (nat i))"

definition substring :: "nat \<Rightarrow> nat \<Rightarrow> string \<Rightarrow> string" where
  "substring a b s = take (b - a) (drop a s)"

definition padStart :: "nat \<Rightarrow> char \<Rightarrow> string \<Rightarrow> string" where
  "padStart n c s = replicate (n - length s) c @ s"

section \<open>Record transformer\<close>

text \<open>The columns selected from the source table \<open>users\<close>. Timestamps are milliseconds
  since the epoch; \<open>customer_preferences\<close> is an opaque value passed through.\<close>

record source_user =
  id_src :: "string option"
  first_name :: "string option"
  last_name :: "string option"
  email_src :: "string option"
  phone_src :: "string option"
  email_verified :: "bool option"
  phone_verified :: "bool option"
  password :: "string option"
  auth_provider :: "string option"
  google_id :: "string option"
  facebook_id :: "string option"
  role_src :: "string option"
  status_src :: "string option"
  customer_preferences :: "string option"
  profile_picture :: "string option"
  notification_via_app :: "bool option"
  notification_via_email :: "bool option"
  notification_via_sms :: "bool option"
  terms_and_conditions :: "bool option"
  average_rating :: "rat option"
  total_ratings :: "int option"
  total_hires :: "int option"
  total_views :: "int option"
  last_hired_at :: "int option"
  is_verified :: "bool option"
  is_featured :: "bool option"
  search_boost :: "int option"
  created_at :: "int option"
  updated_at :: "int option"
  bio_src :: "string option"

record notification_settings =
  app :: bool
  email_n :: bool
  sms :: bool

record ratings =
  average :: "rat option"
  total :: int
  totalHires :: int
  totalViews :: int
  lastHiredAt :: "int option"

record verification =
  isVerified :: bool
  isFeatured :: bool
  searchBoost :: int

record meta_data =
  emailVerified :: bool
  phoneVerified :: bool
  authProvider :: "string option"
  googleId :: "string option"
  facebookId :: "string option"
  status :: "string option"
  customerPreferences :: "string option"
  notificationSettings :: notification_settings
  termsAccepted :: bool
  ratings :: ratings
  verification :: verification
  bio :: "string option"
  hasPassword :: bool

text \<open>What \<open>mapRole\<close> returns: a string of the table or the default, or, for a key that
  the object literal inherits from \<open>Object.prototype\<close>, that inherited member.\<close>

datatype role_value = RoleString string | InheritedMember string

record dest_user =
  id_dst :: "string option"
  externalId :: "string option"
  name :: string
  phone :: string
  email :: "string option"
  role :: role_value
  socketId :: "string option"
  isOnline :: bool
  lastSeen :: "int option"
  avatar :: "string option"
  metaData :: meta_data
  createdAt :: "int option"
  updatedAt :: "int option"
  firstName :: "string option"
  lastName :: "string option"

text \<open>\<open>x || d\<close> for a nullable boolean, number or string: the default replaces every falsy
  value.\<close>

definition orBool :: "bool option \<Rightarrow> bool \<Rightarrow> bool" where
  "orBool x d = (case x of Some True \<Rightarrow> True | _ \<Rightarrow> d)"

definition orInt :: "int option \<Rightarrow> int \<Rightarrow> int" where
  "orInt x d = (case x of Some n \<Rightarrow> if n = 0 then d else n | None \<Rightarrow> d)"

definition orNull :: "string option \<Rightarrow> string option" where
  "orNull x = (case x of Some s \<Rightarrow> if s = [] then None else Some s | None \<Rightarrow> None)"

definition orNullNum :: "rat option \<Rightarrow> rat option" where
  "orNullNum x = (case x of Some q \<Rightarrow> if q = 0 then None else Some q | None \<Rightarrow> None)"

text \<open>\<open>x !== null ? x : d\<close> on a column that holds a boolean or NULL.\<close>

definition notNullOr :: "bool option \<Rightarrow> bool \<Rightarrow> bool" where
  "notNullOr x d = (case x of Some b \<Rightarrow> b | None \<Rightarrow> d)"

definition buildMetaData :: "source_user \<Rightarrow> meta_data" where
  "buildMetaData user = \<lparr>
     emailVerified = orBool (email_verified user) False,
     phoneVerified = orBool (phone_verified user) False,
     authProvider = auth_provider user,
     googleId = google_id user,
     facebookId = facebook_id user,
     status = status_src user,
     customerPreferences = customer_preferences user,
     notificationSettings = \<lparr>
       app = notNullOr (notification_via_app user) True,
       email_n = notNullOr (notification_via_email user) True,
       sms = notNullOr (notification_via_sms user) False \<rparr>,
     termsAccepted = orBool (terms_and_conditions user) False,
     ratings = \<lparr>
       average = orNullNum (average_rating user),
       total = orInt (total_ratings user) 0,
       totalHires = orInt (total_hires user) 0,
       totalViews = orInt (total_views user) 0,
       lastHiredAt = last_hired_at user \<rparr>,
     verification = \<lparr>
       isVerified = orBool (is_verified user) False,
       isFeatured = orBool (is_featured user) False,
       searchBoost = orInt (search_boost user) 0 \<rparr>,
     bio = orNull (bio_src user),
     hasPassword = (case password user of Some p \<Rightarrow> p \<noteq> [] | None \<Rightarrow> False) \<rparr>"

text \<open>\<open>user.first_name?.trim() || ''\<close>.\<close>

definition trimmedOrEmpty :: "string option \<Rightarrow> string" where
  "trimmedOrEmpty x = (case x of Some s \<Rightarrow> trim s | None \<Rightarrow> [])"

text \<open>Reading a property of \<open>null\<close> throws a \<open>TypeError\<close>: the fall-back name needs the id.\<close>

definition buildFullName :: "source_user \<Rightarrow> thrown + string" where
  "buildFullName user =
     (let firstName = trimmedOrEmpty (first_name user);
          lastName = trimmedOrEmpty (last_name user)
      in if firstName \<noteq> [] \<and> lastName \<noteq> [] then Inr (firstName @ '' '' @ lastName)
         else if firstName \<noteq> [] then Inr firstName
         else if lastName \<noteq> [] then Inr lastName
         else (case id_src user of
                 None \<Rightarrow> Inl (TypeError ''Cannot read properties of null (reading 'substring')'')
               | Some i \<Rightarrow> Inr (''User '' @ substring 0 8 i)))"

text \<open>
  The ids of the source table are UUIDs (rows are created with \<open>gen_random_uuid()\<close>, and
  the placeholder is written to "convert UUID to numeric"): in text, 32 hexadecimal
  digits in groups of 8, 4, 4, 4 and 12 separated by \<open>-\<close>.
\<close>

definition isUuid :: "string \<Rightarrow> bool" where
  "isUuid s =
     (length s = 36 \<and>
      list_all isHexDigit (take 8 s) \<and> take 1 (drop 8 s) = ''-'' \<and>
      list_all isHexDigit (take 4 (drop 9 s)) \<and> take 1 (drop 13 s) = ''-'' \<and>
      list_all isHexDigit (take 4 (drop 14 s)) \<and> take 1 (drop 18 s) = ''-'' \<and>
      list_all isHexDigit (take 4 (drop 19 s)) \<and> take 1 (drop 23 s) = ''-'' \<and>
      list_all isHexDigit (drop 24 s))"

text \<open>The placeholder of \<open>sanitizePhone\<close>, written twice in the source with the same text:
  \<open>hexPart\<close>, \<open>numericPart\<close> and the result.\<close>

definition hexPart :: "string \<Rightarrow> string" where
  "hexPart userId = substring 0 8 (filter (\<lambda>c. c \<noteq> CHR ''-'') userId)"

definition numericPart :: "string \<Rightarrow> string" where
  "numericPart userId = substring 0 9 (numToString (parseInt16 (hexPart userId)))"

definition placeholderPhone :: "string option \<Rightarrow> thrown + string" where
  "placeholderPhone userId = (case userId of
       None \<Rightarrow> Inl (TypeError ''Cannot read properties of null (reading 'replace')'')
     | Some u \<Rightarrow> Inr (CHR ''9'' # padStart 9 CHR ''0'' (numericPart u)))"

definition sanitizePhone :: "string option \<Rightarrow> string option \<Rightarrow> thrown + string" where
  "sanitizePhone phoneArg userId =
     (case phoneArg of
        None \<Rightarrow> placeholderPhone userId
      | Some p \<Rightarrow>
          if p = [] \<or> trim p = [] then placeholderPhone userId
          else (let cleaned = filter isDigit p
                in if cleaned = [] then placeholderPhone userId else Inr cleaned))"

text \<open>The object literal \<open>roleMapping\<close>: its own properties, and the members every object
  literal inherits from \<open>Object.prototype\<close>, all of them truthy.\<close>

definition roleMapping :: "(string \<times> string) list" where
  "roleMapping = [
     (''customer'', ''customer''),
     (''service_provider'', ''usta''),
     (''provider'', ''usta''),
     (''admin'', ''administrator''),
     (''administrator'', ''administrator''),
     (''super_admin'', ''administrator'')]"

definition objectPrototypeMembers :: "string list" where
  "objectPrototypeMembers = [''constructor'', ''__proto__'', ''hasOwnProperty'',
     ''isPrototypeOf'', ''propertyIsEnumerable'', ''toLocaleString'', ''toString'',
     ''valueOf'', ''__defineGetter__'', ''__defineSetter__'', ''__lookupGetter__'',
     ''__lookupSetter__'']"

text \<open>\<open>roleMapping[sourceRole?.toLowerCase()] || 'customer'\<close>. A missing role looks up the
  key \<open>undefined\<close>, which the object does not have.\<close>

definition mapRole :: "string option \<Rightarrow> role_value" where
  "mapRole sourceRole =
     (case sourceRole of
        None \<Rightarrow> RoleString ''customer''
      | Some r \<Rightarrow>
          (let key = toLowerCase r
           in case map_of roleMapping key of
                Some v \<Rightarrow> RoleString v
              | None \<Rightarrow> if key \<in> set objectPrototypeMembers then InheritedMember key
                        else RoleString ''customer''))"

text \<open>The object literal of \<open>transformUserData\<close> is evaluated field by field, in order, and
  the first field that throws ends the call.\<close>

definition transformUserData :: "source_user \<Rightarrow> thrown + dest_user" where
  "transformUserData sourceUser =
     (case buildFullName sourceUser of
        Inl e \<Rightarrow> Inl e
      | Inr nm \<Rightarrow>
         (case sanitizePhone (phone_src sourceUser) (id_src sourceUser) of
            Inl e \<Rightarrow> Inl e
          | Inr ph \<Rightarrow> Inr \<lparr>
              id_dst = id_src sourceUser,
              externalId = id_src sourceUser,
              name = nm,
              phone = ph,
              email = (if email_verified sourceUser = Some True then email_src sourceUser else None),
              role = mapRole (role_src sourceUser),
              socketId = None,
              isOnline = False,
              lastSeen = None,
              avatar = profile_picture sourceUser,
              metaData = buildMetaData sourceUser,
              createdAt = created_at sourceUser,
              updatedAt = updated_at sourceUser,
              firstName = first_name sourceUser,
              lastName = last_name sourceUser \<rparr>))"

section \<open>Engine state\<close>

text \<open>
  The fields of the service object, and next to them what the JavaScript runtime holds
  for it: the reading of \<open>Date.now()\<close>, the pending timers, the scheduled passes that have
  started and not finished, and a trace of what was done so far: the waits, the calls of
  a retried operation, the pages returned by the source queries, and the upsert statements
  sent to the destination store (with the number of the attempt, the record, and the error
  message if the store rejected it). The stack text of an error is not modelled.
\<close>

record error_record =
  timestamp :: int
  errorType :: string
  userId :: "string option"
  errorMessage :: string
  additionalData :: "(string \<times> string option) list"

record sync_stats =
  totalSynced :: nat
  lastSyncTime :: "int option"
  lastSyncDuration :: "int option"
  errors :: nat
  consecutiveFailures :: nat
  lastError :: "error_record option"
  realtimeSyncActive :: bool
  scheduledSyncActive :: bool

text \<open>The retry configuration. \<open>backoffMultiplier\<close> is read with \<open>parseFloat\<close>, so it
  may have a fraction; the delays are computed with exact arithmetic on its value (the
  rounding of the arithmetic on doubles is not modelled).\<close>

record retry_config =
  maxRetries :: int
  initialDelayMs :: int
  maxDelayMs :: int
  backoffMultiplier :: rat

datatype callback = RunScheduledSync int | RunScheduledSyncCycle int | Reconnect

record timer =
  timer_id :: nat
  timer_callback :: callback
  timer_due :: int

record pass =
  pass_interval :: int
  pass_start :: int
  pass_since :: int

datatype event =
    Slept rat
  | Attempted string nat
  | Queried nat nat "source_user list"
  | Upsert nat dest_user "string option"

record engine =
  realtimeClient :: bool
  realtimeReconnectAttempts :: nat
  maxReconnectAttempts :: int
  realtimeReconnectTimeout :: "nat option"
  isListening :: bool
  isSyncInProgress :: bool
  scheduledSyncTimeout :: "nat option"
  syncStats :: sync_stats
  retryConfig :: retry_config
  syncIntervalMinutes :: int
  syncWindowMultiplier :: int
  clock :: int
  timers :: "timer list"
  nextTimer :: nat
  running :: "pass list"
  trace :: "event list"

text \<open>The state the constructor builds when none of the optional environment variables is
  set, at time 0.\<close>

definition defaultEngine :: engine where
  "defaultEngine = \<lparr>
     realtimeClient = False,
     realtimeReconnectAttempts = 0,
     maxReconnectAttempts = 10,
     realtimeReconnectTimeout = None,
     isListening = False,
     isSyncInProgress = False,
     scheduledSyncTimeout = None,
     syncStats = \<lparr> totalSynced = 0, lastSyncTime = None, lastSyncDuration = None, errors = 0,
       consecutiveFailures = 0, lastError = None, realtimeSyncActive = False,
       scheduledSyncActive = False \<rparr>,
     retryConfig = \<lparr> maxRetries = 3, initialDelayMs = 1000, maxDelayMs = 30000,
       backoffMultiplier = 2 \<rparr>,
     syncIntervalMinutes = 1,
     syncWindowMultiplier = 3,
     clock = 0,
     timers = [],
     nextTimer = 0,
     running = [],
     trace = [] \<rparr>"

text \<open>\<open>setTimeout\<close> and \<open>clearTimeout\<close>: a timer is due \<open>delay\<close> milliseconds after the
  current time (a delay with a fraction is taken in whole milliseconds by the caller); the
  handle is fresh.\<close>

definition setTimeout :: "callback \<Rightarrow> int \<Rightarrow> engine \<Rightarrow> nat \<times> engine" where
  "setTimeout cb delay st =
     (nextTimer st,
      st\<lparr> timers := timers st @ [\<lparr> timer_id = nextTimer st, timer_callback = cb,
                                    timer_due = clock st + delay \<rparr>],
          nextTimer := Suc (nextTimer st) \<rparr>)"

definition clearTimeout :: "nat \<Rightarrow> engine \<Rightarrow> engine" where
  "clearTimeout h st = st\<lparr> timers := filter (\<lambda>tm. timer_id tm \<noteq> h) (timers st) \<rparr>"

text \<open>\<open>sleep(ms)\<close>: the wait is recorded in the trace and the time moves on by its whole
  milliseconds.\<close>

definition sleep :: "rat \<Rightarrow> engine \<Rightarrow> engine" where
  "sleep ms st = st\<lparr> clock := clock st + max 0 \<lfloor>ms\<rfloor>, trace := trace st @ [Slept ms] \<rparr>"

section \<open>Error logging and retry\<close>

text \<open>Reading \<open>error.message\<close> when \<open>error\<close> is \<open>undefined\<close> or \<open>null\<close> throws this
  \<open>TypeError\<close>.\<close>

definition messageTypeError :: "thrown \<Rightarrow> thrown" where
  "messageTypeError e =
     TypeError (''Cannot read properties of '' @ (if e = Null then ''null'' else ''undefined'') @
                '' (reading 'message')'')"

text \<open>\<open>error.message || String(error)\<close>, for an error that has properties.\<close>

fun messageOf :: "thrown \<Rightarrow> string" where
  "messageOf Undefined = ''undefined''"
| "messageOf Null = ''null''"
| "messageOf (TypeError m) = (if m = [] then ''TypeError'' else m)"
| "messageOf (Error m) = (if m = [] then ''Error'' else m)"

text \<open>
  \<open>logError\<close>. Reading \<open>error.message\<close> of \<open>undefined\<close> or \<open>null\<close> throws before anything is
  counted.
  The insertion into \<open>sync_errors\<close> is attempted and its failure is caught, so it does not
  show in the engine state; after it the three statistics are updated.
\<close>

definition logError ::
  "string \<Rightarrow> string option \<Rightarrow> thrown \<Rightarrow> (string \<times> string option) list \<Rightarrow> engine \<Rightarrow> thrown + engine" where
  "logError errType uid err extra st =
     (if err = Undefined \<or> err = Null then Inl (messageTypeError err)
      else Inr (st\<lparr> syncStats := (syncStats st)\<lparr>
                  errors := errors (syncStats st) + 1,
                  consecutiveFailures := consecutiveFailures (syncStats st) + 1,
                  lastError := Some \<lparr> timestamp = clock st, errorType = errType, userId = uid,
                                      errorMessage = messageOf err, additionalData = extra \<rparr> \<rparr> \<rparr>))"

text \<open>The delay before attempt number \<open>attempt\<close> (counted from 0, so the first retry is
  attempt 1).\<close>

definition backoffDelay :: "retry_config \<Rightarrow> nat \<Rightarrow> rat" where
  "backoffDelay cfg attempt =
     min (of_int (initialDelayMs cfg) * backoffMultiplier cfg ^ (attempt - 1))
         (of_int (maxDelayMs cfg))"

text \<open>
  The loop of \<open>retryWithBackoff\<close>, from a given value of \<open>attempt\<close>. The operation is an
  asynchronous closure; \<open>operation k\<close> is what its call in attempt \<open>k\<close> does to the stores
  (the statements it sends, as trace events) and what it returns or throws. The \<open>catch\<close>
  block reads \<open>error.message\<close> for its log line: when the operation rejected with
  \<open>undefined\<close> or \<open>null\<close>, that read throws a \<open>TypeError\<close>, which leaves the loop.
\<close>

function retryLoop ::
  "(nat \<Rightarrow> event list \<times> (thrown + 'a)) \<Rightarrow> string \<Rightarrow> nat \<Rightarrow> thrown \<Rightarrow> engine
     \<Rightarrow> (thrown + 'a) \<times> engine" where
  "retryLoop operation ctx attempt lastErr st =
     (if int attempt \<le> maxRetries (retryConfig st) then
        (let st1 = (if attempt > 0 then sleep (backoffDelay (retryConfig st) attempt) st else st);
             st2 = st1\<lparr> trace := trace st1 @ [Attempted ctx attempt] @ fst (operation attempt) \<rparr>
         in case snd (operation attempt) of
              Inr result \<Rightarrow>
                (Inr result, st2\<lparr> syncStats := (syncStats st2)\<lparr> consecutiveFailures := 0 \<rparr> \<rparr>)
            | Inl err \<Rightarrow>
                if err = Undefined \<or> err = Null then (Inl (messageTypeError err), st2)
                else retryLoop operation ctx (Suc attempt) err st2)
      else (Inl lastErr, st))"
  by pat_completeness auto
termination
  by (relation "measure (\<lambda>(operation, ctx, attempt, lastErr, st).
        nat (maxRetries (retryConfig st) + 1 - int attempt))")
     (auto simp: sleep_def Let_def)

declare retryLoop.simps [simp del]

definition retryWithBackoff ::
  "(nat \<Rightarrow> event list \<times> (thrown + 'a)) \<Rightarrow> string \<Rightarrow> engine \<Rightarrow> (thrown + 'a) \<times> engine" where
  "retryWithBackoff operation ctx st = retryLoop operation ctx 0 Undefined st"

section \<open>Health evaluation\<close>

datatype health = HEALTHY | UNHEALTHY

record health_checks =
  realtimeSyncActive_check :: bool
  scheduledSyncActive_check :: bool
  recentSyncSuccess :: bool
  lowErrorRate :: bool

record health_status =
  status_h :: health
  checks :: health_checks
  recommendations :: "string list"

text \<open>\<open>Math.round\<close>, and a number in a template literal.\<close>

definition mathRound :: "rat \<Rightarrow> int" where
  "mathRound x = \<lfloor>x + 1 / 2\<rfloor>"

definition intToString :: "int \<Rightarrow> string" where
  "intToString i = numToString (Num i)"

text \<open>\<open>(Date.now() - lastSyncTime.getTime()) / 1000\<close>, or null when there was no sync.\<close>

definition timeSinceLastSync :: "engine \<Rightarrow> rat option" where
  "timeSinceLastSync st =
     (case lastSyncTime (syncStats st) of
        Some t \<Rightarrow> Some (of_int (clock st - t) / 1000)
      | None \<Rightarrow> None)"

definition getHealthRecommendations :: "bool \<Rightarrow> rat option \<Rightarrow> engine \<Rightarrow> string list" where
  "getHealthRecommendations isHealthy tss st =
     (let r1 = (if \<not> isListening st
                then [''Real-time sync is not active - check database connection and logs'']
                else []);
          r2 = (if consecutiveFailures (syncStats st) \<ge> 5
                then [''High consecutive failure count (''
                       @ intToString (int (consecutiveFailures (syncStats st)))
                       @ '') - investigate error logs'']
                else []);
          r3 = (case tss of
                  Some t \<Rightarrow> if t \<noteq> 0 \<and> t > 600
                            then [''No successful sync in '' @ intToString (mathRound (t / 60))
                                   @ '' minutes - check service health'']
                            else []
                | None \<Rightarrow> []);
          r4 = (case lastSyncDuration (syncStats st) of
                  Some d \<Rightarrow> if d \<noteq> 0 \<and> of_int d > of_int (syncIntervalMinutes st * 60 * 1000) * (8 / 10 :: rat)
                            then [''Sync duration approaching interval time - consider increasing interval or optimizing queries'']
                            else []
                | None \<Rightarrow> []);
          rs = r1 @ r2 @ r3 @ r4
      in if isHealthy \<and> rs = [] then rs @ [''All systems operational''] else rs)"

definition getHealthStatus :: "engine \<Rightarrow> health_status" where
  "getHealthStatus st =
     (let tss = timeSinceLastSync st;
          isHealthy = (consecutiveFailures (syncStats st) < 5 \<and>
                       (tss = None \<or> the tss < 600) \<and>
                       isListening st)
      in \<lparr> status_h = (if isHealthy then HEALTHY else UNHEALTHY),
           checks = \<lparr>
             realtimeSyncActive_check = isListening st,
             scheduledSyncActive_check = (scheduledSyncActive (syncStats st) \<or> \<not> isSyncInProgress st),
             recentSyncSuccess = (tss = None \<or> the tss < 600),
             lowErrorRate = (consecutiveFailures (syncStats st) < 5) \<rparr>,
           recommendations = getHealthRecommendations isHealthy tss st \<rparr>)"

section \<open>Batch reconciliation\<close>

text \<open>
  The two stores as a pass sees them: the rows of the source table \<open>users\<close>; whether the
  source query at a given offset fails, and with which message; and whether the
  \<open>k\<close>-th attempt to write a destination record fails, and with which message. The
  database driver rejects with \<open>Error\<close> objects. The source table is the same for all
  queries of one pass.
\<close>

record env =
  sourceTable :: "source_user list"
  sourceQueryError :: "nat \<Rightarrow> string option"
  chatInsert :: "dest_user \<Rightarrow> nat \<Rightarrow> string option"

text \<open>The \<open>WHERE\<close> clause of \<open>bulkSyncUsers\<close>: a comparison with a NULL \<open>updated_at\<close> is not
  true.\<close>

definition whereClause :: "int option \<Rightarrow> source_user \<Rightarrow> bool" where
  "whereClause sinceDate u =
     (status_src u = Some ''active'' \<and> id_src u \<noteq> None \<and>
      (case sinceDate of
         None \<Rightarrow> True
       | Some s \<Rightarrow> (case updated_at u of Some t \<Rightarrow> t > s | None \<Rightarrow> False)))"

text \<open>\<open>ORDER BY updated_at DESC\<close>: NULLs first, then the later row first; rows with the
  same \<open>updated_at\<close>, whose order the database leaves open, stay in the order of the table.\<close>

definition orderByUpdatedAtDesc :: "source_user list \<Rightarrow> source_user list" where
  "orderByUpdatedAtDesc rows = sort_key (\<lambda>u. map_option uminus (updated_at u)) rows"

definition selectUsers :: "source_user list \<Rightarrow> nat \<Rightarrow> nat \<Rightarrow> int option \<Rightarrow> source_user list" where
  "selectUsers rows limit offset sinceDate =
     take limit (drop offset (orderByUpdatedAtDesc (filter (whereClause sinceDate) rows)))"

definition sourcePoolQuery :: "env \<Rightarrow> nat \<Rightarrow> nat \<Rightarrow> int option \<Rightarrow> thrown + source_user list" where
  "sourcePoolQuery env limit offset sinceDate =
     (case sourceQueryError env offset of
        Some msg \<Rightarrow> Inl (Error msg)
      | None \<Rightarrow> Inr (selectUsers (sourceTable env) limit offset sinceDate))"

text \<open>A nullable string in a template literal.\<close>

definition tmpl :: "string option \<Rightarrow> string" where
  "tmpl x = (case x of None \<Rightarrow> ''null'' | Some t \<Rightarrow> t)"

text \<open>The closure given to \<open>retryWithBackoff\<close>: transform the row, then send the upsert
  of the transformed record to the destination store.\<close>

definition upsertOperation :: "env \<Rightarrow> source_user \<Rightarrow> nat \<Rightarrow> event list \<times> (thrown + unit)" where
  "upsertOperation env user k =
     (case transformUserData user of
        Inl e \<Rightarrow> ([], Inl e)
      | Inr d \<Rightarrow>
          ([Upsert k d (chatInsert env d k)],
           case chatInsert env d k of Some msg \<Rightarrow> Inl (Error msg) | None \<Rightarrow> Inr ()))"

definition bulkContext :: "source_user \<Rightarrow> string" where
  "bulkContext user = ''bulk sync user '' @ tmpl (id_src user)"

text \<open>The \<open>for\<close> loop of \<open>bulkSyncUsers\<close> over the rows of a page. An error thrown by
  \<open>logError\<close> inside the \<open>catch\<close> leaves the loop.\<close>

fun syncUsers ::
  "env \<Rightarrow> source_user list \<Rightarrow> nat \<Rightarrow> nat \<Rightarrow> engine \<Rightarrow> (thrown + nat \<times> nat) \<times> engine" where
  "syncUsers env [] successCount errorCount st = (Inr (successCount, errorCount), st)"
| "syncUsers env (user # rest) successCount errorCount st =
     (case retryWithBackoff (upsertOperation env user) (bulkContext user) st of
        (Inr u, st1) \<Rightarrow> syncUsers env rest (successCount + 1) errorCount st1
      | (Inl err, st1) \<Rightarrow>
          (case logError ''BULK_SYNC_USER_FAILED'' (id_src user) err
                  [(''userName'', Some (tmpl (first_name user) @ '' '' @ tmpl (last_name user))),
                   (''userEmail'', email_src user)] st1 of
             Inl e \<Rightarrow> (Inl e, st1)
           | Inr st2 \<Rightarrow> syncUsers env rest successCount (errorCount + 1) st2))"

text \<open>The outer \<open>catch\<close> of \<open>bulkSyncUsers\<close>: log, then throw the error again.\<close>

definition bulkSyncFailed ::
  "thrown \<Rightarrow> nat \<Rightarrow> nat \<Rightarrow> int option \<Rightarrow> engine \<Rightarrow> (thrown + bool) \<times> engine" where
  "bulkSyncFailed err limit offset sinceDate st =
     (case logError ''BULK_SYNC_FAILED'' None err
             [(''limit'', Some (toDecimal limit)), (''offset'', Some (toDecimal offset)),
              (''sinceDate'', map_option intToString sinceDate)] st of
        Inl e \<Rightarrow> (Inl e, st)
      | Inr st1 \<Rightarrow> (Inl err, st1))"

definition bulkSyncUsers ::
  "env \<Rightarrow> nat \<Rightarrow> nat \<Rightarrow> int option \<Rightarrow> engine \<Rightarrow> (thrown + bool) \<times> engine" where
  "bulkSyncUsers env limit offset sinceDate st =
     (case sourcePoolQuery env limit offset sinceDate of
        Inl err \<Rightarrow> bulkSyncFailed err limit offset sinceDate st
      | Inr users \<Rightarrow>
          (let st0 = st\<lparr> trace := trace st @ [Queried limit offset users] \<rparr>
           in if length users = 0 then (Inr False, st0)
              else (case syncUsers env users 0 0 st0 of
                      (Inl err, st1) \<Rightarrow> bulkSyncFailed err limit offset sinceDate st1
                    | (Inr (successCount, errorCount), st1) \<Rightarrow>
                        (Inr (length users = limit),
                         st1\<lparr> syncStats := (syncStats st1)\<lparr>
                                totalSynced := totalSynced (syncStats st1) + successCount,
                                errors := errors (syncStats st1) + errorCount,
                                lastSyncTime := Some (clock st1) \<rparr> \<rparr>))))"

lemma bulkSyncUsers_more:
  assumes "bulkSyncUsers env limit offset sinceDate st = (Inr True, st')"
  shows "limit \<noteq> 0 \<and> offset + limit \<le> length (filter (whereClause sinceDate) (sourceTable env))"
proof (cases "sourcePoolQuery env limit offset sinceDate")
  case (Inl err)
  then show ?thesis using assms
    by (simp add: bulkSyncUsers_def bulkSyncFailed_def split: sum.splits)
next
  case (Inr users)
  then have u: "users = selectUsers (sourceTable env) limit offset sinceDate"
    by (simp add: sourcePoolQuery_def split: option.splits)
  have "users \<noteq> [] \<and> length users = limit"
    using assms Inr
    by (simp add: bulkSyncUsers_def bulkSyncFailed_def Let_def split: if_splits sum.splits prod.splits)
  then show ?thesis
    unfolding u selectUsers_def orderByUpdatedAtDesc_def by auto
qed

lemma bulkSyncUsers_decreases:
  assumes "bulkSyncUsers env limit offset sinceDate st = (Inr True, st')"
  shows "length (filter (whereClause sinceDate) (sourceTable env)) - (offset + limit)
         < length (filter (whereClause sinceDate) (sourceTable env)) - offset"
  using bulkSyncUsers_more[OF assms] by arith

text \<open>The \<open>while (hasMore)\<close> loop of a scheduled pass, from a given offset.\<close>

function syncLoop :: "env \<Rightarrow> nat \<Rightarrow> nat \<Rightarrow> int \<Rightarrow> engine \<Rightarrow> (thrown + unit) \<times> engine" where
  "syncLoop env limit offset sinceT st =
     (case bulkSyncUsers env limit offset (Some sinceT) st of
        (Inl err, st1) \<Rightarrow> (Inl err, st1)
      | (Inr hasMore, st1) \<Rightarrow>
          if hasMore then syncLoop env limit (offset + limit) sinceT st1 else (Inr (), st1))"
  by pat_completeness auto
termination
  by (relation "measure (\<lambda>(env, limit, offset, sinceT, st).
          length (filter (whereClause (Some sinceT)) (sourceTable env)) - offset)")
     (auto dest!: bulkSyncUsers_decreases bulkSyncUsers_decreases[OF sym])

declare syncLoop.simps [simp del]

section \<open>Scheduling of the batch passes\<close>

definition scheduleNextSync :: "int \<Rightarrow> engine \<Rightarrow> engine" where
  "scheduleNextSync intervalMin st =
     (let st1 = (case scheduledSyncTimeout st of Some h \<Rightarrow> clearTimeout h st | None \<Rightarrow> st);
          (h, st2) = setTimeout (RunScheduledSyncCycle intervalMin) (intervalMin * 60 * 1000) st1
      in st2\<lparr> scheduledSyncTimeout := Some h \<rparr>)"

text \<open>\<open>startScheduledSync\<close>: the first pass is a timer for the closure \<open>runScheduledSync\<close>,
  whose text repeats the check, the loop and the \<open>finally\<close> of \<open>runScheduledSyncCycle\<close>.\<close>

definition startScheduledSync :: "int option \<Rightarrow> engine \<Rightarrow> engine" where
  "startScheduledSync arg st =
     (let intervalMin = (case arg of
                           Some n \<Rightarrow> if n = 0 then syncIntervalMinutes st else n
                         | None \<Rightarrow> syncIntervalMinutes st);
          (h, st1) = setTimeout (RunScheduledSync intervalMin) (intervalMin * 60 * 1000) st
      in st1\<lparr> scheduledSyncTimeout := Some h \<rparr>)"

text \<open>
  \<open>runScheduledSyncCycle\<close> runs without interruption up to its first \<open>await\<close>: the check of
  the flag, and either the skip or the taking of the flag and the computation of the
  lower bound. From then on the pass is in flight until its \<open>finally\<close> block.
\<close>

definition runScheduledSyncCycle_start :: "int \<Rightarrow> engine \<Rightarrow> engine" where
  "runScheduledSyncCycle_start intervalMin st =
     (if isSyncInProgress st then scheduleNextSync intervalMin st
      else st\<lparr> isSyncInProgress := True,
               syncStats := (syncStats st)\<lparr> scheduledSyncActive := True \<rparr>,
               running := running st @
                 [\<lparr> pass_interval = intervalMin, pass_start = clock st,
                    pass_since = clock st - (intervalMin * syncWindowMultiplier st) * 60 * 1000 \<rparr>] \<rparr>)"

text \<open>The rest of the pass: the loop over the pages with page size 500, the \<open>catch\<close> and
  the \<open>finally\<close>.\<close>

definition runScheduledSyncCycle_finish :: "env \<Rightarrow> pass \<Rightarrow> engine \<Rightarrow> engine" where
  "runScheduledSyncCycle_finish env p st =
     (let (r, st1) = syncLoop env 500 0 (pass_since p) st;
          st2 = (case r of
                   Inr u \<Rightarrow> st1\<lparr> syncStats := (syncStats st1)\<lparr>
                                   lastSyncDuration := Some (clock st1 - pass_start p) \<rparr> \<rparr>
                 | Inl err \<Rightarrow> (case logError ''SCHEDULED_SYNC_FAILED'' None err [] st1 of
                                 Inr st' \<Rightarrow> st'
                               | Inl e \<Rightarrow> st1));
          st3 = st2\<lparr> isSyncInProgress := False,
                     syncStats := (syncStats st2)\<lparr> scheduledSyncActive := False \<rparr>,
                     running := remove1 p (running st2) \<rparr>
      in scheduleNextSync (pass_interval p) st3)"

section \<open>Real-time listener: connection and reconnection\<close>

definition attemptRealtimeReconnection :: "engine \<Rightarrow> engine" where
  "attemptRealtimeReconnection st =
     (if int (realtimeReconnectAttempts st) \<ge> maxReconnectAttempts st then st
      else (let st1 = st\<lparr> realtimeReconnectAttempts := realtimeReconnectAttempts st + 1 \<rparr>;
                delay = backoffDelay (retryConfig st1) (realtimeReconnectAttempts st1);
                (h, st2) = setTimeout Reconnect \<lfloor>delay\<rfloor> st1
            in st2\<lparr> realtimeReconnectTimeout := Some h \<rparr>))"

text \<open>
  \<open>startRealTimeSync\<close>. \<open>outcome\<close> is \<open>None\<close> when the connection and the three statements
  on it succeed, and the message of the error otherwise.
\<close>

definition startRealTimeSync :: "string option \<Rightarrow> engine \<Rightarrow> (thrown + unit) \<times> engine" where
  "startRealTimeSync outcome st =
     (if isListening st then (Inr (), st)
      else (let st1 = st\<lparr> realtimeClient := True \<rparr>
            in case outcome of
                 None \<Rightarrow>
                   (Inr (), st1\<lparr> isListening := True,
                                 syncStats := (syncStats st1)\<lparr> realtimeSyncActive := True \<rparr>,
                                 realtimeReconnectAttempts := 0 \<rparr>)
               | Some msg \<Rightarrow>
                   (case logError ''REALTIME_SYNC_START_FAILED'' None (Error msg) [] st1 of
                      Inl e \<Rightarrow> (Inl e, st1)
                    | Inr st2 \<Rightarrow> (Inl (Error msg), attemptRealtimeReconnection st2))))"

text \<open>The handlers of the events \<open>error\<close> and \<open>end\<close> of the listening client.\<close>

definition onConnectionError :: "engine \<Rightarrow> engine" where
  "onConnectionError st =
     attemptRealtimeReconnection
       (st\<lparr> isListening := False, syncStats := (syncStats st)\<lparr> realtimeSyncActive := False \<rparr> \<rparr>)"

definition onConnectionEnd :: "engine \<Rightarrow> engine" where
  "onConnectionEnd st =
     (if isListening st
      then attemptRealtimeReconnection
             (st\<lparr> isListening := False, syncStats := (syncStats st)\<lparr> realtimeSyncActive := False \<rparr> \<rparr>)
      else st)"

section \<open>The events of a running service\<close>

text \<open>
  What can happen to a running service between two awaits: time passes; a due timer
  fires and its callback runs (a reconnection timer with the outcome of the connection
  attempt); a pass in flight runs to its end against some contents of the stores; the
  listening connection reports an error or ends. An event that cannot happen in a state
  yields \<open>None\<close>. Change notifications are not among the events: their handlers touch the
  statistics only.
\<close>

datatype sys_event =
    Tick int
  | TimerFires nat "string option"
  | PassCompletes env pass
  | ConnectionError
  | ConnectionEnd

fun runCallback :: "callback \<Rightarrow> string option \<Rightarrow> engine \<Rightarrow> engine" where
  "runCallback (RunScheduledSync intervalMin) outcome st = runScheduledSyncCycle_start intervalMin st"
| "runCallback (RunScheduledSyncCycle intervalMin) outcome st = runScheduledSyncCycle_start intervalMin st"
| "runCallback Reconnect outcome st = snd (startRealTimeSync outcome st)"

fun dispatch :: "sys_event \<Rightarrow> engine \<Rightarrow> engine option" where
  "dispatch (Tick t) st = (if clock st \<le> t then Some (st\<lparr> clock := t \<rparr>) else None)"
| "dispatch (TimerFires h outcome) st =
     (case find (\<lambda>tm. timer_id tm = h) (timers st) of
        None \<Rightarrow> None
      | Some tm \<Rightarrow>
          if timer_due tm \<le> clock st
          then Some (runCallback (timer_callback tm) outcome
                       (st\<lparr> timers := filter (\<lambda>x. timer_id x \<noteq> h) (timers st) \<rparr>))
          else None)"
| "dispatch (PassCompletes env p) st =
     (if p \<in> set (running st) then Some (runScheduledSyncCycle_finish env p st) else None)"
| "dispatch ConnectionError st = Some (onConnectionError st)"
| "dispatch ConnectionEnd st = Some (onConnectionEnd st)"

fun runEvents :: "sys_event list \<Rightarrow> engine \<Rightarrow> engine option" where
  "runEvents [] st = Some st"
| "runEvents (ev # evs) st = (case dispatch ev st of None \<Rightarrow> None | Some st1 \<Rightarrow> runEvents evs st1)"

section \<open>Reference definitions for the statements\<close>

text \<open>The trace that attempts \<open>a\<close> to \<open>m - 1\<close> of a retried operation are to leave: before
  every attempt \<open>k\<close> but attempt 0 a wait of
  \<open>min (initialDelay * multiplier ^ (k - 1)) maxDelay\<close>, then the call of the operation and
  what the operation sent.\<close>

definition retryEvents ::
  "retry_config \<Rightarrow> string \<Rightarrow> (nat \<Rightarrow> event list \<times> (thrown + 'a)) \<Rightarrow> nat \<Rightarrow> nat \<Rightarrow> event list" where
  "retryEvents cfg ctx operation a m =
     concat (map (\<lambda>k. (if 0 < k
                        then [Slept (min (of_int (initialDelayMs cfg) * backoffMultiplier cfg ^ (k - 1))
                                         (of_int (maxDelayMs cfg)))]
                        else []) @
                       [Attempted ctx k] @ fst (operation k)) [a..<m])"

fun attemptCount :: "event list \<Rightarrow> nat" where
  "attemptCount [] = 0"
| "attemptCount (Attempted c k # es) = Suc (attemptCount es)"
| "attemptCount (e # es) = attemptCount es"

text \<open>The pages that the source queries of a trace returned, and the contexts of the
  operations that a trace shows being tried for the first time, both in order.\<close>

fun pagesOf :: "event list \<Rightarrow> source_user list list" where
  "pagesOf [] = []"
| "pagesOf (Queried l off rows # es) = rows # pagesOf es"
| "pagesOf (e # es) = pagesOf es"

fun firstAttempts :: "event list \<Rightarrow> string list" where
  "firstAttempts [] = []"
| "firstAttempts (Attempted c k # es) = (if k = 0 then c # firstAttempts es else firstAttempts es)"
| "firstAttempts (e # es) = firstAttempts es"

text \<open>The records of the upsert statements that a trace shows being sent in a first
  attempt, in order.\<close>

fun firstWrites :: "event list \<Rightarrow> dest_user list" where
  "firstWrites [] = []"
| "firstWrites (Upsert k d outcome # es) = (if k = 0 then d # firstWrites es else firstWrites es)"
| "firstWrites (e # es) = firstWrites es"

text \<open>A list cut into pages of \<open>limit\<close> elements, up to and including the first page
  that is not full (which is empty when the list ends on a full page).\<close>

function pagesFrom :: "nat \<Rightarrow> 'a list \<Rightarrow> 'a list list" where
  "pagesFrom limit xs =
     (if limit = 0 \<or> length xs < limit then [take limit xs]
      else take limit xs # pagesFrom limit (drop limit xs))"
  by pat_completeness auto
termination
  by (relation "measure (\<lambda>(limit, xs). length xs)") auto

declare pagesFrom.simps [simp del]

text \<open>Two engine states that differ at most in the statistics, the time and the trace.\<close>

definition sameControl :: "engine \<Rightarrow> engine \<Rightarrow> bool" where
  "sameControl st st' =
     (realtimeClient st' = realtimeClient st \<and>
      realtimeReconnectAttempts st' = realtimeReconnectAttempts st \<and>
      maxReconnectAttempts st' = maxReconnectAttempts st \<and>
      realtimeReconnectTimeout st' = realtimeReconnectTimeout st \<and>
      isListening st' = isListening st \<and>
      isSyncInProgress st' = isSyncInProgress st \<and>
      scheduledSyncTimeout st' = scheduledSyncTimeout st \<and>
      retryConfig st' = retryConfig st \<and>
      syncIntervalMinutes st' = syncIntervalMinutes st \<and>
      syncWindowMultiplier st' = syncWindowMultiplier st \<and>
      timers st' = timers st \<and>
      nextTimer st' = nextTimer st \<and>
      running st' = running st)"

text \<open>The batch flag is set exactly while one pass is in flight, and there is never more
  than one.\<close>

definition atMostOnePass :: "engine \<Rightarrow> bool" where
  "atMostOnePass st = (if isSyncInProgress st then length (running st) = 1 else running st = [])"

text \<open>The real-time path has given up: the attempt counter has reached the maximum, the
  listener is not listening, and no reconnection timer is pending.\<close>

definition givenUp :: "engine \<Rightarrow> bool" where
  "givenUp st =
     (maxReconnectAttempts st \<le> int (realtimeReconnectAttempts st) \<and> \<not> isListening st \<and>
      list_all (\<lambda>tm. timer_callback tm \<noteq> Reconnect) (timers st))"

text \<open>An operation that fails in every attempt, one that succeeds at once, and one that
  rejects with \<open>undefined\<close>.\<close>

definition failingOperation :: "nat \<Rightarrow> event list \<times> (thrown + unit)" where
  "failingOperation k = ([], Inl (Error ''connection refused''))"

definition workingOperation :: "nat \<Rightarrow> event list \<times> (thrown + unit)" where
  "workingOperation k = ([], Inr ())"

definition undefinedRejection :: "nat \<Rightarrow> event list \<times> (thrown + unit)" where
  "undefinedRejection k = ([], Inl Undefined)"

text \<open>The engine of a service started with \<open>MAX_RETRIES=-1\<close>, at time 1000000.\<close>

definition negativeRetries :: engine where
  "negativeRetries = defaultEngine \<lparr>
     retryConfig := (retryConfig defaultEngine) \<lparr> maxRetries := - 1 \<rparr>, clock := 1000000 \<rparr>"

text \<open>An engine that has logged two errors since the last success.\<close>

definition failedTwice :: engine where
  "failedTwice = defaultEngine \<lparr> syncStats :=
     (syncStats defaultEngine) \<lparr> errors := 2, consecutiveFailures := 2 \<rparr> \<rparr>"

text \<open>The three health signals as the specification words them: fewer than 5 consecutive
  failures, a last sync less than 600 seconds ago, and the listener listening.\<close>

definition allThreeSignals :: "engine \<Rightarrow> bool" where
  "allThreeSignals st =
     (consecutiveFailures (syncStats st) < 5 \<and>
      (case lastSyncTime (syncStats st) of
         Some t \<Rightarrow> (of_int (clock st - t) / 1000 :: rat) < 600
       | None \<Rightarrow> False) \<and>
      isListening st)"

text \<open>A listening engine whose last sync was at time 0.\<close>

definition listeningSince0 :: "int \<Rightarrow> engine" where
  "listeningSince0 now = defaultEngine \<lparr> isListening := True,
     syncStats := (syncStats defaultEngine) \<lparr> lastSyncTime := Some 0 \<rparr>, clock := now \<rparr>"

text \<open>A row with every column NULL, and the source record of the transformer scenario, used
  to instantiate the theorems below.\<close>

definition emptyRow :: source_user where
  "emptyRow = \<lparr> id_src = None, first_name = None, last_name = None, email_src = None,
     phone_src = None, email_verified = None, phone_verified = None, password = None,
     auth_provider = None, google_id = None, facebook_id = None, role_src = None,
     status_src = None, customer_preferences = None, profile_picture = None,
     notification_via_app = None, notification_via_email = None, notification_via_sms = None,
     terms_and_conditions = None, average_rating = None, total_ratings = None,
     total_hires = None, total_views = None, last_hired_at = None, is_verified = None,
     is_featured = None, search_boost = None, created_at = None, updated_at = None,
     bio_src = None \<rparr>"

definition scenarioUser :: source_user where
  "scenarioUser = emptyRow \<lparr>
     id_src := (Some ''abc123ef-0000-4000-8000-000000000000''),
     first_name := (Some []),
     last_name := (Some []),
     email_src := (Some ''x@y.com''),
     email_verified := (Some False),
     role_src := (Some ''service_provider''),
     status_src := (Some ''active'') \<rparr>"

text \<open>A source table of four rows and stores that never fail.\<close>

definition rowAt :: "string \<Rightarrow> string \<Rightarrow> int \<Rightarrow> source_user" where
  "rowAt i s t = emptyRow \<lparr> id_src := (Some i), status_src := (Some s), updated_at := (Some t) \<rparr>"

definition fourRows :: env where
  "fourRows = \<lparr>
     sourceTable = [rowAt ''0a000000-0000-4000-8000-000000000000'' ''active'' 900000,
                    rowAt ''0b000000-0000-4000-8000-000000000000'' ''active'' 950000,
                    rowAt ''0c000000-0000-4000-8000-000000000000'' ''inactive'' 990000,
                    rowAt ''0d000000-0000-4000-8000-000000000000'' ''active'' 100000],
     sourceQueryError = (\<lambda>k. None),
     chatInsert = (\<lambda>d k. None) \<rparr>"

text \<open>An engine that allows two reconnection attempts; an engine with a pass in flight at
  time 60000; and an engine on which \<open>startScheduledSync\<close> was called twice.\<close>

definition twoAttempts :: engine where
  "twoAttempts = defaultEngine \<lparr> maxReconnectAttempts := 2 \<rparr>"

definition passInFlight :: engine where
  "passInFlight = runScheduledSyncCycle_start 1 (defaultEngine \<lparr> clock := 60000 \<rparr>)"

definition startedTwice :: engine where
  "startedTwice = startScheduledSync None (startScheduledSync None defaultEngine)"


section \<open>Properties of the record transformer\<close>

subsection \<open>Evaluation of strings\<close>

lemma replicate_numeral: "replicate (numeral k) x = x # replicate (pred_numeral k) x"
  by (simp add: numeral_eq_Suc)

lemmas str_eval = sanitizePhone_def placeholderPhone_def numericPart_def hexPart_def substring_def
  padStart_def parseInt16_def stripSign_def stripHexPrefix_def isWhiteSpace_def isHexDigit_def
  hexVal_def hexValue_def toDecimal.simps isDigit_def trim_def char_of_eq_iff replicate_numeral

subsection \<open>Hexadecimal prefixes and decimal digits\<close>

lemma isHexDigit_not_ws: "isHexDigit c \<Longrightarrow> \<not> isWhiteSpace c"
  by (auto simp: isHexDigit_def isWhiteSpace_def hexVal_def Let_def split: if_splits)

lemma isHexDigit_not_sign:
  "isHexDigit c \<Longrightarrow> c \<noteq> CHR ''-'' \<and> c \<noteq> CHR ''+'' \<and> c \<noteq> CHR ''x'' \<and> c \<noteq> CHR ''X''"
  by (auto simp: isHexDigit_def hexVal_def Let_def split: if_splits)

lemma isWhiteSpace_not_digit: "isWhiteSpace c \<Longrightarrow> \<not> isDigit c"
  by (auto simp: isWhiteSpace_def isDigit_def)

text \<open>On a non-empty string of hexadecimal digits \<open>parseInt(s, 16)\<close> is the base-16 value.\<close>

lemma parseInt16_hex:
  assumes "s \<noteq> []" and "list_all isHexDigit s"
  shows "parseInt16 s = Num (int (hexValue s))"
proof -
  obtain c r where s: "s = c # r" using assms(1) by (cases s) auto
  have c: "isHexDigit c" using assms(2) s by simp
  have 1: "dropWhile isWhiteSpace s = s" using c s isHexDigit_not_ws by simp
  have 2: "stripSign s = (False, s)" using c s isHexDigit_not_sign by (simp add: stripSign_def)
  have 3: "stripHexPrefix s = s"
  proof (cases r)
    case Nil then show ?thesis using s by (simp add: stripHexPrefix_def)
  next
    case (Cons b t)
    then have "isHexDigit b" using assms(2) s by simp
    then show ?thesis using s Cons isHexDigit_not_sign by (simp add: stripHexPrefix_def)
  qed
  have 4: "takeWhile isHexDigit s = s" using assms(2) by (simp add: list_all_iff)
  show ?thesis using assms(1) by (simp add: parseInt16_def 1 2 3 4)
qed

lemma digit_char: "(d::nat) < 10 \<Longrightarrow> isDigit (char_of (48 + d))"
  by (simp add: isDigit_def)

lemma toDecimal_digits: "list_all isDigit (toDecimal n) \<and> toDecimal n \<noteq> []"
proof (induction n rule: toDecimal.induct)
  case (1 n)
  show ?case
  proof (cases "n < 10")
    case True
    then show ?thesis by (simp add: toDecimal.simps[of n] digit_char)
  next
    case False
    then show ?thesis using 1 by (simp add: toDecimal.simps[of n] digit_char)
  qed
qed

lemma trim_empty_no_digits:
  assumes "trim p = []"
  shows "filter isDigit p = []"
proof -
  have all: "\<forall>c\<in>set (dropWhile isWhiteSpace p). isWhiteSpace c"
    using assms by (simp add: trim_def dropWhile_eq_Nil_conv)
  have "dropWhile isWhiteSpace p = []"
  proof (rule ccontr)
    assume ne: "dropWhile isWhiteSpace p \<noteq> []"
    then have "\<not> isWhiteSpace (hd (dropWhile isWhiteSpace p))" by (rule hd_dropWhile)
    moreover have "hd (dropWhile isWhiteSpace p) \<in> set (dropWhile isWhiteSpace p)"
      using ne by simp
    ultimately show False using all by blast
  qed
  then have "\<forall>c\<in>set p. isWhiteSpace c" by (simp only: dropWhile_eq_Nil_conv)
  then show ?thesis using isWhiteSpace_not_digit by (auto simp: filter_empty_conv)
qed

subsection \<open>Placeholder phones\<close>

text \<open>
  C1. The claim: two ids that differ in their first 8 hexadecimal characters (separators
  removed) get different placeholder phones. The code keeps only the first 9 decimal
  digits of a value that has 10 digits from \<open>0x3b9aca00\<close> on, so these two ids, whose
  prefixes are 1000000000 and 1000000001, get the same placeholder.
\<close>

theorem placeholder_collision:
  "hexPart ''3b9aca00-0000-4000-8000-000000000000'' \<noteq> hexPart ''3b9aca01-0000-4000-8000-000000000000'' \<and>
   sanitizePhone None (Some ''3b9aca00-0000-4000-8000-000000000000'') = Inr ''9100000000'' \<and>
   sanitizePhone None (Some ''3b9aca01-0000-4000-8000-000000000000'') = Inr ''9100000000''"
  by (simp add: str_eval)

text \<open>The first 8 characters of a UUID without its separators are its first group.\<close>

lemma hexPart_uuid:
  assumes "isUuid uid"
  shows "hexPart uid = take 8 uid \<and> hexPart uid \<noteq> [] \<and> list_all isHexDigit (hexPart uid)"
proof -
  have len: "length uid = 36" and hx: "list_all isHexDigit (take 8 uid)"
    using assms by (simp_all add: isUuid_def)
  have "filter (\<lambda>c. c \<noteq> CHR ''-'') (take 8 uid) = take 8 uid"
    using hx isHexDigit_not_sign by (auto simp: list_all_iff filter_id_conv)
  then have "filter (\<lambda>c. c \<noteq> CHR ''-'') uid =
      take 8 uid @ filter (\<lambda>c. c \<noteq> CHR ''-'') (drop 8 uid)"
    using filter_append[of "\<lambda>c. c \<noteq> CHR ''-''" "take 8 uid" "drop 8 uid"] by simp
  then have "hexPart uid = take 8 uid"
    using len by (simp add: hexPart_def substring_def)
  moreover have "take 8 uid \<noteq> []" using len by auto
  ultimately show ?thesis using hx by simp
qed

text \<open>\<open>hexPart\<close> has no \<open>-\<close> left, so \<open>parseInt\<close> reads no negative number from it.\<close>

lemma hexPart_no_minus: "CHR ''-'' \<notin> set (hexPart uid)"
  by (auto simp: hexPart_def substring_def dest: in_set_takeD)

lemma parseInt16_no_minus:
  assumes "CHR ''-'' \<notin> set s" and "parseInt16 s \<noteq> NaN"
  shows "\<exists>n. parseInt16 s = Num (int n)"
proof -
  obtain neg r where sr: "stripSign (dropWhile isWhiteSpace s) = (neg, r)"
    by (cases "stripSign (dropWhile isWhiteSpace s)")
  have "CHR ''-'' \<notin> set (dropWhile isWhiteSpace s)"
    using assms(1) set_dropWhileD by fastforce
  then have "\<not> neg" using sr by (auto simp: stripSign_def split: list.splits if_splits)
  then show ?thesis using assms(2) sr by (auto simp: parseInt16_def Let_def split: if_splits)
qed

lemma placeholder_digits_number:
  assumes "parseInt16 (hexPart uid) \<noteq> NaN"
  shows "list_all isDigit (CHR ''9'' # padStart 9 CHR ''0'' (numericPart uid))"
proof -
  obtain n where "parseInt16 (hexPart uid) = Num (int n)"
    using parseInt16_no_minus[OF hexPart_no_minus assms] by blast
  then have "numericPart uid = take 9 (toDecimal n)"
    by (simp add: numericPart_def substring_def)
  moreover have "list_all isDigit (take 9 (toDecimal n))"
    using toDecimal_digits[of n] by (auto simp: list_all_iff dest: in_set_takeD)
  moreover have "isDigit CHR ''9''" "isDigit CHR ''0''" by (simp_all add: isDigit_def)
  ultimately show ?thesis by (auto simp: padStart_def list_all_iff)
qed

text \<open>
  C8. The ids of the source records are UUIDs. For a UUID, and for every other id in which
  \<open>parseInt\<close> finds a number, \<open>sanitizePhone\<close> returns a non-empty string of digits: the digits
  of the phone when it has any, and the placeholder when the phone is null, empty, white
  space only or without a digit.
\<close>

theorem sanitizePhone_digits:
  assumes "isUuid uid \<or> parseInt16 (hexPart uid) \<noteq> NaN"
  shows "\<exists>r. sanitizePhone phoneArg (Some uid) = Inr r \<and> r \<noteq> [] \<and> list_all isDigit r \<and>
     r = (if (case phoneArg of None \<Rightarrow> True | Some p \<Rightarrow> filter isDigit p = [])
          then CHR ''9'' # padStart 9 CHR ''0'' (numericPart uid)
          else filter isDigit (the phoneArg))"
proof -
  have "parseInt16 (hexPart uid) \<noteq> NaN"
  proof (cases "isUuid uid")
    case True
    note hp = hexPart_uuid[OF True, THEN conjunct2]
    have "hexPart uid \<noteq> []" by (rule hp[THEN conjunct1])
    moreover have "list_all isHexDigit (hexPart uid)" by (rule hp[THEN conjunct2])
    ultimately show ?thesis using parseInt16_hex by simp
  next
    case False
    then show ?thesis using assms by simp
  qed
  then have pd: "list_all isDigit (CHR ''9'' # padStart 9 CHR ''0'' (numericPart uid))"
    by (rule placeholder_digits_number)
  show ?thesis
  proof (cases phoneArg)
    case None
    then show ?thesis using pd
      by (simp add: sanitizePhone_def placeholderPhone_def)
  next
    case (Some p)
    show ?thesis
    proof (cases "filter isDigit p = []")
      case True
      then have "sanitizePhone phoneArg (Some uid) = Inr (CHR ''9'' # padStart 9 CHR ''0'' (numericPart uid))"
        using Some by (simp add: sanitizePhone_def placeholderPhone_def Let_def)
      then show ?thesis using Some True pd by simp
    next
      case False
      then have "p \<noteq> []" "trim p \<noteq> []" using trim_empty_no_digits by auto
      then have "sanitizePhone phoneArg (Some uid) = Inr (filter isDigit p)"
        using Some False by (simp add: sanitizePhone_def Let_def)
      then show ?thesis using Some False by (simp add: list_all_iff)
    qed
  qed
qed

theorem sanitizePhone_digits_witness:
  "isUuid ''abc123ef-0000-4000-8000-000000000000'' \<and>
   sanitizePhone (Some ''+90 (555) 123-45-67'') (Some ''abc123ef-0000-4000-8000-000000000000'')
     = Inr ''905551234567'' \<and>
   sanitizePhone (Some '' - '') (Some ''abc123ef-0000-4000-8000-000000000000'')
     = Inr ''9288156158'' \<and>
   sanitizePhone None (Some ''abc123ef-0000-4000-8000-000000000000'') = Inr ''9288156158'' \<and>
   list_all isDigit ''9288156158''"
proof -
  have h: "isUuid ''abc123ef-0000-4000-8000-000000000000''"
    by (simp add: isUuid_def isHexDigit_def hexVal_def)
  then have h': "isUuid ''abc123ef-0000-4000-8000-000000000000'' \<or>
      parseInt16 (hexPart ''abc123ef-0000-4000-8000-000000000000'') \<noteq> NaN" ..
  have d1: "filter isDigit ''+90 (555) 123-45-67'' = ''905551234567''"
    by (simp add: isDigit_def)
  have d2: "filter isDigit '' - '' = []"
    by (simp add: isDigit_def)
  have pl: "CHR ''9'' # padStart 9 CHR ''0'' (numericPart ''abc123ef-0000-4000-8000-000000000000'')
      = ''9288156158''"
    by (simp add: str_eval)
  from sanitizePhone_digits[OF h', of "Some ''+90 (555) 123-45-67''"]
  obtain r1 where r1: "sanitizePhone (Some ''+90 (555) 123-45-67'')
        (Some ''abc123ef-0000-4000-8000-000000000000'') = Inr r1"
    and e1: "r1 = (if (case Some ''+90 (555) 123-45-67'' of None \<Rightarrow> True
                        | Some p \<Rightarrow> filter isDigit p = [])
          then CHR ''9'' # padStart 9 CHR ''0'' (numericPart ''abc123ef-0000-4000-8000-000000000000'')
          else filter isDigit (the (Some ''+90 (555) 123-45-67'')))"
    by blast
  have "r1 = ''905551234567''"
    using e1 unfolding option.case option.sel d1 by simp
  with r1 have c1: "sanitizePhone (Some ''+90 (555) 123-45-67'')
      (Some ''abc123ef-0000-4000-8000-000000000000'') = Inr ''905551234567''"
    by simp
  from sanitizePhone_digits[OF h', of "Some '' - ''"]
  obtain r2 where r2: "sanitizePhone (Some '' - '')
        (Some ''abc123ef-0000-4000-8000-000000000000'') = Inr r2"
    and e2: "r2 = (if (case Some '' - '' of None \<Rightarrow> True | Some p \<Rightarrow> filter isDigit p = [])
          then CHR ''9'' # padStart 9 CHR ''0'' (numericPart ''abc123ef-0000-4000-8000-000000000000'')
          else filter isDigit (the (Some '' - '')))"
    by blast
  have "r2 = ''9288156158''"
    using e2 unfolding option.case option.sel d2 pl by simp
  with r2 have c2: "sanitizePhone (Some '' - '') (Some ''abc123ef-0000-4000-8000-000000000000'')
     = Inr ''9288156158''"
    by simp
  from sanitizePhone_digits[OF h', of None]
  obtain r3 where r3: "sanitizePhone None (Some ''abc123ef-0000-4000-8000-000000000000'') = Inr r3"
    and d3: "list_all isDigit r3"
    and e3: "r3 = (if (case None :: string option of None \<Rightarrow> True | Some p \<Rightarrow> filter isDigit p = [])
          then CHR ''9'' # padStart 9 CHR ''0'' (numericPart ''abc123ef-0000-4000-8000-000000000000'')
          else filter isDigit (the None))"
    by blast
  have e3': "r3 = ''9288156158''"
    using e3 unfolding option.case pl by simp
  have c3: "sanitizePhone None (Some ''abc123ef-0000-4000-8000-000000000000'') = Inr ''9288156158''"
    using r3 e3' by simp
  have c4: "list_all isDigit ''9288156158''" using d3 unfolding e3' .
  show ?thesis using h c1 c2 c3 c4 by simp
qed

subsection \<open>Email\<close>

lemma transformUserData_total:
  assumes "id_src u \<noteq> None"
  shows "\<exists>d. transformUserData u = Inr d"
proof -
  obtain i where i: "id_src u = Some i" using assms by auto
  have "\<exists>n. buildFullName u = Inr n"
    using i by (simp add: buildFullName_def Let_def)
  then obtain n where n: "buildFullName u = Inr n" by blast
  have "\<exists>p. sanitizePhone (phone_src u) (id_src u) = Inr p"
    using i by (simp add: sanitizePhone_def placeholderPhone_def Let_def split: option.splits)
  then obtain p where p: "sanitizePhone (phone_src u) (id_src u) = Inr p" by blast
  show "\<exists>d. transformUserData u = Inr d"
    by (simp add: transformUserData_def n p)
qed

text \<open>
  C2. Whenever \<open>transformUserData\<close> produces a destination record, its email is the source
  email if \<open>email_verified\<close> is true and null otherwise (flag false or absent), whatever the
  source email is; and a record is produced for every source record with an id.
\<close>

theorem transformUserData_email:
  "(\<forall>d. transformUserData u = Inr d \<longrightarrow>
        email d = (if email_verified u = Some True then email_src u else None)) \<and>
   (id_src u \<noteq> None \<longrightarrow> (\<exists>d. transformUserData u = Inr d))"
proof (intro conjI allI impI)
  fix d assume a: "transformUserData u = Inr d"
  show "email d = (if email_verified u = Some True then email_src u else None)"
  proof (cases "buildFullName u")
    case (Inl e)
    then show ?thesis using a by (simp add: transformUserData_def)
  next
    case (Inr n)
    show ?thesis
    proof (cases "sanitizePhone (phone_src u) (id_src u)")
      case (Inl e)
      then show ?thesis using a Inr by (simp add: transformUserData_def)
    next
      case p: (Inr p)
      have "email (projr (transformUserData u)) =
              (if email_verified u = Some True then email_src u else None)"
        by (simp add: transformUserData_def Inr p)
      then show ?thesis using a by simp
    qed
  qed
next
  assume "id_src u \<noteq> None"
  then show "\<exists>d. transformUserData u = Inr d" by (rule transformUserData_total)
qed

theorem transformUserData_email_witness:
  "id_src scenarioUser \<noteq> None \<and> email_src scenarioUser = Some ''x@y.com'' \<and>
   email_verified scenarioUser \<noteq> Some True \<and>
   (\<exists>d. transformUserData scenarioUser = Inr d \<and> email d = None)"
proof -
  have h: "id_src scenarioUser \<noteq> None" "email_src scenarioUser = Some ''x@y.com''"
    "email_verified scenarioUser \<noteq> Some True"
    by (simp_all add: scenarioUser_def emptyRow_def)
  from transformUserData_email[of scenarioUser] h(1)
  obtain d where d: "transformUserData scenarioUser = Inr d" by blast
  with transformUserData_email[of scenarioUser] h(3) have "email d = None" by simp
  with d h show ?thesis by blast
qed

subsection \<open>Roles\<close>

lemma mapRole_own_key:
  "map_of roleMapping (toLowerCase r) = Some v \<Longrightarrow> mapRole (Some r) = RoleString v"
  by (simp add: mapRole_def)

lemma mapRole_default:
  "map_of roleMapping (toLowerCase r) = None \<Longrightarrow> toLowerCase r \<notin> set objectPrototypeMembers \<Longrightarrow>
   mapRole (Some r) = RoleString ''customer''"
  by (simp add: mapRole_def)

lemma mapRole_missing: "mapRole None = RoleString ''customer''"
  by (simp add: mapRole_def)

text \<open>
  C9. The claim: every role outside the table maps to \<open>customer\<close>. The role
  \<open>Constructor\<close> is outside the table, and the lookup of its lower-case form in the object
  literal finds the member inherited from \<open>Object.prototype\<close>, which is truthy, so the
  default is not taken and the result is not a role string at all.
\<close>

theorem mapRole_inherited_member:
  "map_of roleMapping (toLowerCase ''Constructor'') = None \<and>
   mapRole (Some ''Constructor'') = InheritedMember ''constructor'' \<and>
   mapRole (Some ''Constructor'') \<noteq> RoleString ''customer''"
  by (simp add: mapRole_def toLowerCase_def toLowerChar_def roleMapping_def
      objectPrototypeMembers_def char_of_eq_iff)

section \<open>Properties of retry and error accounting\<close>

lemma retryEvents_step:
  "a < m \<Longrightarrow> retryEvents cfg ctx operation a m =
     (if 0 < a then [Slept (backoffDelay cfg a)] else []) @ [Attempted ctx a] @ fst (operation a) @
     retryEvents cfg ctx operation (Suc a) m"
  by (simp add: retryEvents_def backoffDelay_def upt_conv_Cons)

lemma retryEvents_one:
  "retryEvents cfg ctx operation a (Suc a) =
     (if 0 < a then [Slept (backoffDelay cfg a)] else []) @ [Attempted ctx a] @ fst (operation a)"
  by (simp add: retryEvents_def backoffDelay_def)

lemma retryLoop_config:
  "retryLoop operation ctx a le st = (r, st') \<Longrightarrow> retryConfig st' = retryConfig st"
proof (induction operation ctx a le st rule: retryLoop.induct)
  case (1 operation ctx attempt lastErr st)
  show ?case
  proof (cases "int attempt \<le> maxRetries (retryConfig st)")
    case False
    then show ?thesis using "1.prems" by (simp add: retryLoop.simps[of _ _ attempt])
  next
    case True
    show ?thesis
    proof (cases "snd (operation attempt)")
      case (Inr x)
      then show ?thesis using True "1.prems"
        by (auto simp: retryLoop.simps[of _ _ attempt] Let_def sleep_def)
    next
      case (Inl e)
      show ?thesis
      proof (cases "e = Undefined \<or> e = Null")
        case u: True
        then show ?thesis using True Inl "1.prems"
          by (auto simp: retryLoop.simps[of _ _ attempt] Let_def sleep_def)
      next
        case ne: False
        then show ?thesis using True Inl "1.prems" "1.IH"[OF True refl refl Inl ne]
          by (auto simp: retryLoop.simps[of _ _ attempt] Let_def sleep_def split: if_splits)
      qed
    qed
  qed
qed

text \<open>
  What a run of the loop from attempt \<open>a\<close> does. It makes the attempts \<open>a, ..., m - 1\<close>. All
  but the last of them failed with an error object. The run ends with the value returned
  by the last attempt; or, when the last attempt rejected with \<open>undefined\<close> or \<open>null\<close>, with
  the \<open>TypeError\<close> of the \<open>catch\<close> block; or else, after attempt \<open>maxRetries\<close>, with the error of
  the last attempt (with \<open>lastError\<close> as it was, when no attempt was made).
\<close>

lemma retryLoop_spec:
  "retryLoop operation ctx a le st = (r, st') \<Longrightarrow>
   \<exists>m. a \<le> m \<and> int m \<le> max (int a) (maxRetries (retryConfig st) + 1) \<and>
       trace st' = trace st @ retryEvents (retryConfig st) ctx operation a m \<and>
       (\<forall>k. a \<le> k \<and> Suc k < m \<longrightarrow>
            isl (snd (operation k)) \<and> snd (operation k) \<notin> {Inl Undefined, Inl Null}) \<and>
       (case r of
          Inr x \<Rightarrow> a < m \<and> snd (operation (m - 1)) = Inr x
        | Inl e \<Rightarrow>
            (\<forall>k. a \<le> k \<and> k < m \<longrightarrow> isl (snd (operation k))) \<and>
            (if a < m \<and> snd (operation (m - 1)) \<in> {Inl Undefined, Inl Null}
             then e = messageTypeError (projl (snd (operation (m - 1))))
             else int m = max (int a) (maxRetries (retryConfig st) + 1) \<and>
                  e = (if m = a then le else projl (snd (operation (m - 1))))))"
proof (induction operation ctx a le st arbitrary: r st' rule: retryLoop.induct)
  case (1 operation ctx attempt lastErr st)
  show ?case
  proof (cases "int attempt \<le> maxRetries (retryConfig st)")
    case False
    then have "r = Inl lastErr" "st' = st" using "1.prems"
      by (simp_all add: retryLoop.simps[of _ _ attempt])
    then show ?thesis using False
      by (intro exI[of _ attempt]) (auto simp: retryEvents_def)
  next
    case True
    let ?st1 = "if attempt > 0 then sleep (backoffDelay (retryConfig st) attempt) st else st"
    let ?st2 = "?st1\<lparr> trace := trace ?st1 @ [Attempted ctx attempt] @ fst (operation attempt) \<rparr>"
    have cfg2: "retryConfig ?st2 = retryConfig st" by (simp add: sleep_def)
    have tr2: "trace ?st2 = trace st @
        (if 0 < attempt then [Slept (backoffDelay (retryConfig st) attempt)] else []) @
        [Attempted ctx attempt] @ fst (operation attempt)"
      by (simp add: sleep_def)
    have one: "trace ?st2 = trace st @ retryEvents (retryConfig st) ctx operation attempt (Suc attempt)"
      unfolding tr2 retryEvents_one ..
    show ?thesis
    proof (cases "snd (operation attempt)")
      case (Inr x)
      then have r: "r = Inr x"
        and s: "st' = ?st2\<lparr> syncStats := (syncStats ?st2)\<lparr> consecutiveFailures := 0 \<rparr> \<rparr>"
        using True "1.prems" by (simp_all add: retryLoop.simps[of _ _ attempt] Let_def)
      have "trace st' = trace st @ retryEvents (retryConfig st) ctx operation attempt (Suc attempt)"
        unfolding s using one by simp
      then show ?thesis using r Inr True
        by (intro exI[of _ "Suc attempt"]) auto
    next
      case (Inl e)
      show ?thesis
      proof (cases "e = Undefined \<or> e = Null")
        case u: True
        then have r: "r = Inl (messageTypeError e)"
          and s: "st' = ?st2"
          using True Inl "1.prems" by (auto simp: retryLoop.simps[of _ _ attempt] Let_def)
        have t: "trace st' = trace st @ retryEvents (retryConfig st) ctx operation attempt (Suc attempt)"
          unfolding s by (rule one)
        have i: "\<forall>k. attempt \<le> k \<and> k < Suc attempt \<longrightarrow> isl (snd (operation k))"
          using Inl by (auto simp: less_Suc_eq_le)
        show ?thesis using r t i Inl u True
          by (intro exI[of _ "Suc attempt"]) auto
      next
        case ne: False
        then have rec: "retryLoop operation ctx (Suc attempt) e ?st2 = (r, st')"
          using True Inl "1.prems" by (simp add: retryLoop.simps[of _ _ attempt] Let_def)
        from "1.IH"[OF True refl refl Inl ne rec]
        obtain m where m: "Suc attempt \<le> m"
          and mb: "int m \<le> max (int (Suc attempt)) (maxRetries (retryConfig ?st2) + 1)"
          and tr: "trace st' = trace ?st2 @ retryEvents (retryConfig ?st2) ctx operation (Suc attempt) m"
          and fl: "\<forall>k. Suc attempt \<le> k \<and> Suc k < m \<longrightarrow>
                     isl (snd (operation k)) \<and> snd (operation k) \<notin> {Inl Undefined, Inl Null}"
          and rr: "(case r of
            Inr x \<Rightarrow> Suc attempt < m \<and> snd (operation (m - 1)) = Inr x
          | Inl e' \<Rightarrow>
              (\<forall>k. Suc attempt \<le> k \<and> k < m \<longrightarrow> isl (snd (operation k))) \<and>
              (if Suc attempt < m \<and> snd (operation (m - 1)) \<in> {Inl Undefined, Inl Null}
               then e' = messageTypeError (projl (snd (operation (m - 1))))
               else int m = max (int (Suc attempt)) (maxRetries (retryConfig ?st2) + 1) \<and>
                    e' = (if m = Suc attempt then e else projl (snd (operation (m - 1))))))"
          by blast
        have a: "isl (snd (operation attempt))" "projl (snd (operation attempt)) = e"
          "snd (operation attempt) \<notin> {Inl Undefined, Inl Null}"
          using Inl ne by simp_all
        have all: "\<And>k. attempt \<le> k \<Longrightarrow> k = attempt \<or> Suc attempt \<le> k" by arith
        have 1: "attempt \<le> m" using m by simp
        have 2: "int m \<le> max (int attempt) (maxRetries (retryConfig st) + 1)"
          using mb True unfolding cfg2 by simp
        have 3: "trace st' = trace st @ retryEvents (retryConfig st) ctx operation attempt m"
          using tr m unfolding cfg2 tr2 by (simp add: retryEvents_step[of attempt m])
        have 4: "\<forall>k. attempt \<le> k \<and> Suc k < m \<longrightarrow>
                   isl (snd (operation k)) \<and> snd (operation k) \<notin> {Inl Undefined, Inl Null}"
          using fl a(1) a(3) all by blast
        have cond: "(attempt < m \<and> snd (operation (m - 1)) \<in> {Inl Undefined, Inl Null}) =
                    (Suc attempt < m \<and> snd (operation (m - 1)) \<in> {Inl Undefined, Inl Null})"
        proof (cases "m = Suc attempt")
          case True
          then show ?thesis using a(3) by simp
        next
          case False
          then show ?thesis using m by auto
        qed
        have 5: "(case r of
            Inr x \<Rightarrow> attempt < m \<and> snd (operation (m - 1)) = Inr x
          | Inl e' \<Rightarrow>
              (\<forall>k. attempt \<le> k \<and> k < m \<longrightarrow> isl (snd (operation k))) \<and>
              (if attempt < m \<and> snd (operation (m - 1)) \<in> {Inl Undefined, Inl Null}
               then e' = messageTypeError (projl (snd (operation (m - 1))))
               else int m = max (int attempt) (maxRetries (retryConfig st) + 1) \<and>
                    e' = (if m = attempt then lastErr else projl (snd (operation (m - 1))))))"
        proof (cases r)
          case (Inr x)
          then show ?thesis using rr by simp
        next
          case (Inl e')
          then have i2: "\<forall>k. Suc attempt \<le> k \<and> k < m \<longrightarrow> isl (snd (operation k))"
            and i3: "if Suc attempt < m \<and> snd (operation (m - 1)) \<in> {Inl Undefined, Inl Null}
               then e' = messageTypeError (projl (snd (operation (m - 1))))
               else int m = max (int (Suc attempt)) (maxRetries (retryConfig st) + 1) \<and>
                    e' = (if m = Suc attempt then e else projl (snd (operation (m - 1))))"
            using rr unfolding cfg2 by simp_all
          have j2: "\<forall>k. attempt \<le> k \<and> k < m \<longrightarrow> isl (snd (operation k))"
            using i2 a(1) all by blast
          have j3: "if attempt < m \<and> snd (operation (m - 1)) \<in> {Inl Undefined, Inl Null}
               then e' = messageTypeError (projl (snd (operation (m - 1))))
               else int m = max (int attempt) (maxRetries (retryConfig st) + 1) \<and>
                    e' = (if m = attempt then lastErr else projl (snd (operation (m - 1))))"
          proof (cases "Suc attempt < m \<and> snd (operation (m - 1)) \<in> {Inl Undefined, Inl Null}")
            case True
            then have c: "attempt < m \<and> snd (operation (m - 1)) \<in> {Inl Undefined, Inl Null}"
              unfolding cond .
            from i3 have "e' = messageTypeError (projl (snd (operation (m - 1))))"
              unfolding if_P[OF True] .
            then show ?thesis unfolding if_P[OF c] .
          next
            case False
            then have nc: "\<not> (attempt < m \<and> snd (operation (m - 1)) \<in> {Inl Undefined, Inl Null})"
              unfolding cond .
            from i3 have "int m = max (int (Suc attempt)) (maxRetries (retryConfig st) + 1) \<and>
                e' = (if m = Suc attempt then e else projl (snd (operation (m - 1))))"
              unfolding if_not_P[OF False] .
            then have m': "int m = max (int (Suc attempt)) (maxRetries (retryConfig st) + 1)"
              and e': "e' = (if m = Suc attempt then e else projl (snd (operation (m - 1))))"
              by blast+
            have k1: "int m = max (int attempt) (maxRetries (retryConfig st) + 1)"
              using m' \<open>int attempt \<le> maxRetries (retryConfig st)\<close> by simp
            have k2: "e' = (if m = attempt then lastErr else projl (snd (operation (m - 1))))"
              using e' m a(2) by auto
            show ?thesis unfolding if_not_P[OF nc] using k1 k2 by (rule conjI)
          qed
          show ?thesis using Inl j2 j3 by simp
        qed
        show ?thesis using 1 2 3 4 5 by blast
      qed
    qed
  qed
qed

lemmas engine_eval = retryWithBackoff_def retryLoop.simps messageTypeError_def defaultEngine_def sleep_def backoffDelay_def Let_def
  failingOperation_def workingOperation_def undefinedRejection_def failedTwice_def negativeRetries_def

text \<open>
  C5. The claim as stated bounds the number of attempts by the configured count. The
  configured count is \<open>maxRetries\<close> (3 by default), and the loop runs for
  \<open>attempt = 0, ..., maxRetries\<close>: an operation that always fails is attempted 4 times.
\<close>

theorem retryWithBackoff_count_counterexample:
  "fst (retryWithBackoff failingOperation ''upsert'' defaultEngine) = Inl (Error ''connection refused'') \<and>
   trace (snd (retryWithBackoff failingOperation ''upsert'' defaultEngine)) =
     [Attempted ''upsert'' 0, Slept 1000, Attempted ''upsert'' 1, Slept 2000, Attempted ''upsert'' 2,
      Slept 4000, Attempted ''upsert'' 3] \<and>
   attemptCount (trace (snd (retryWithBackoff failingOperation ''upsert'' defaultEngine))) = 4 \<and>
   maxRetries (retryConfig defaultEngine) = 3"
  by (simp add: engine_eval)

text \<open>
  C5, amended. \<open>retryWithBackoff\<close> makes \<open>m\<close> attempts, at most \<open>maxRetries + 1\<close> (the
  first attempt and up to \<open>maxRetries\<close> retries). Before attempt \<open>k > 0\<close> (the \<open>k\<close>-th
  retry) it waits \<open>min (initialDelayMs * backoffMultiplier ^ (k - 1)) maxDelayMs\<close>, as
  \<open>retryEvents\<close> writes out. Every attempt before the last one failed; a returned value is
  that of the last attempt; and when the call throws and no attempt rejected with
  \<open>undefined\<close> or \<open>null\<close>, then all \<open>maxRetries + 1\<close> attempts were made and failed, and the
  error thrown is that of the last attempt.
\<close>

theorem retryWithBackoff_attempts:
  assumes "retryWithBackoff operation ctx st = (r, st')"
  shows "\<exists>m. int m \<le> max 0 (maxRetries (retryConfig st) + 1) \<and>
       trace st' = trace st @ retryEvents (retryConfig st) ctx operation 0 m \<and>
       (\<forall>k. Suc k < m \<longrightarrow> isl (snd (operation k))) \<and>
       (case r of
          Inr x \<Rightarrow> 0 < m \<and> snd (operation (m - 1)) = Inr x
        | Inl e \<Rightarrow>
            (\<forall>k. k < m \<longrightarrow> isl (snd (operation k))) \<and>
            ((\<forall>k. k < m \<longrightarrow> snd (operation k) \<notin> {Inl Undefined, Inl Null}) \<longrightarrow>
               int m = max 0 (maxRetries (retryConfig st) + 1) \<and>
               (0 < m \<longrightarrow> e = projl (snd (operation (m - 1))))))"
proof -
  from retryLoop_spec[OF assms[unfolded retryWithBackoff_def]]
  obtain m where m: "int m \<le> max (int 0) (maxRetries (retryConfig st) + 1)"
    "trace st' = trace st @ retryEvents (retryConfig st) ctx operation 0 m"
    "\<forall>k. 0 \<le> k \<and> Suc k < m \<longrightarrow> isl (snd (operation k)) \<and> snd (operation k) \<notin> {Inl Undefined, Inl Null}"
    "(case r of
          Inr x \<Rightarrow> 0 < m \<and> snd (operation (m - 1)) = Inr x
        | Inl e \<Rightarrow>
            (\<forall>k. 0 \<le> k \<and> k < m \<longrightarrow> isl (snd (operation k))) \<and>
            (if 0 < m \<and> snd (operation (m - 1)) \<in> {Inl Undefined, Inl Null}
             then e = messageTypeError (projl (snd (operation (m - 1))))
             else int m = max (int 0) (maxRetries (retryConfig st) + 1) \<and>
                  e = (if m = 0 then Undefined else projl (snd (operation (m - 1))))))"
    by blast
  show ?thesis
  proof (intro exI[of _ m] conjI)
    show "int m \<le> max 0 (maxRetries (retryConfig st) + 1)" using m(1) by simp
    show "trace st' = trace st @ retryEvents (retryConfig st) ctx operation 0 m" by (rule m(2))
    show "\<forall>k. Suc k < m \<longrightarrow> isl (snd (operation k))" using m(3) by simp
    show "case r of
          Inr x \<Rightarrow> 0 < m \<and> snd (operation (m - 1)) = Inr x
        | Inl e \<Rightarrow>
            (\<forall>k. k < m \<longrightarrow> isl (snd (operation k))) \<and>
            ((\<forall>k. k < m \<longrightarrow> snd (operation k) \<notin> {Inl Undefined, Inl Null}) \<longrightarrow>
               int m = max 0 (maxRetries (retryConfig st) + 1) \<and>
               (0 < m \<longrightarrow> e = projl (snd (operation (m - 1)))))"
    proof (cases r)
      case (Inr x)
      then show ?thesis using m(4) by simp
    next
      case (Inl e)
      then have i: "\<forall>k. k < m \<longrightarrow> isl (snd (operation k))"
        and j: "if 0 < m \<and> snd (operation (m - 1)) \<in> {Inl Undefined, Inl Null}
             then e = messageTypeError (projl (snd (operation (m - 1))))
             else int m = max (int 0) (maxRetries (retryConfig st) + 1) \<and>
                  e = (if m = 0 then Undefined else projl (snd (operation (m - 1))))"
        using m(4) by simp_all
      have "int m = max 0 (maxRetries (retryConfig st) + 1) \<and>
               (0 < m \<longrightarrow> e = projl (snd (operation (m - 1))))"
        if d: "\<forall>k. k < m \<longrightarrow> snd (operation k) \<notin> {Inl Undefined, Inl Null}"
      proof -
        have "\<not> (0 < m \<and> snd (operation (m - 1)) \<in> {Inl Undefined, Inl Null})"
        proof
          assume c: "0 < m \<and> snd (operation (m - 1)) \<in> {Inl Undefined, Inl Null}"
          then have "m - 1 < m" by simp
          then show False using d c by blast
        qed
        then show ?thesis using j by auto
      qed
      then show ?thesis using Inl i by simp
    qed
  qed
qed

theorem retryWithBackoff_attempts_witness:
  "\<exists>m. int m = 4 \<and>
     trace (snd (retryWithBackoff failingOperation ''upsert'' defaultEngine)) =
       retryEvents (retryConfig defaultEngine) ''upsert'' failingOperation 0 m \<and>
     (\<forall>k<m. isl (snd (failingOperation k)) \<and> snd (failingOperation k) \<notin> {Inl Undefined, Inl Null}) \<and>
     fst (retryWithBackoff failingOperation ''upsert'' defaultEngine)
       = Inl (projl (snd (failingOperation (m - 1))))"
proof -
  obtain r st' where h: "retryWithBackoff failingOperation ''upsert'' defaultEngine = (r, st')"
    by (cases "retryWithBackoff failingOperation ''upsert'' defaultEngine")
  have "isl (fst (retryWithBackoff failingOperation ''upsert'' defaultEngine))"
    by (simp add: engine_eval)
  then obtain e where f: "r = Inl e" unfolding h by (cases r) simp_all
  have c: "maxRetries (retryConfig defaultEngine) = 3" "trace defaultEngine = []"
    by (simp_all add: defaultEngine_def)
  have d: "\<forall>k. k < m \<longrightarrow> snd (failingOperation k) \<notin> {Inl Undefined, Inl Null}" for m
    by (simp add: failingOperation_def)
  from retryWithBackoff_attempts[OF h] obtain m where
    m1: "trace st' = trace defaultEngine @ retryEvents (retryConfig defaultEngine) ''upsert'' failingOperation 0 m"
    and m2: "case r of
          Inr x \<Rightarrow> 0 < m \<and> snd (failingOperation (m - 1)) = Inr x
        | Inl e \<Rightarrow>
            (\<forall>k. k < m \<longrightarrow> isl (snd (failingOperation k))) \<and>
            ((\<forall>k. k < m \<longrightarrow> snd (failingOperation k) \<notin> {Inl Undefined, Inl Null}) \<longrightarrow>
               int m = max 0 (maxRetries (retryConfig defaultEngine) + 1) \<and>
               (0 < m \<longrightarrow> e = projl (snd (failingOperation (m - 1)))))"
    by blast
  have m2': "(\<forall>k. k < m \<longrightarrow> isl (snd (failingOperation k)))"
    "int m = max 0 (maxRetries (retryConfig defaultEngine) + 1) \<and>
       (0 < m \<longrightarrow> e = projl (snd (failingOperation (m - 1))))"
    using m2 d[of m] unfolding f by simp_all
  have m3: "int m = 4" using m2'(2) unfolding c(1) by simp
  then have pos: "0 < m" by auto
  have m4: "r = Inl (projl (snd (failingOperation (m - 1))))" using m2'(2) pos f by simp
  have m5: "trace st' = retryEvents (retryConfig defaultEngine) ''upsert'' failingOperation 0 m"
    using m1 unfolding c(2) by simp
  have m6: "\<forall>k<m. isl (snd (failingOperation k)) \<and> snd (failingOperation k) \<notin> {Inl Undefined, Inl Null}"
    using m2'(1) d[of m] by simp
  show ?thesis unfolding h fst_conv snd_conv using m3 m4 m5 m6 by blast
qed

text \<open>An operation that rejects with \<open>undefined\<close> is attempted once, and the caller gets the
  \<open>TypeError\<close> of the \<open>catch\<close> block, not what the operation rejected with.\<close>

lemma retryWithBackoff_undefined_rejection:
  "retryWithBackoff undefinedRejection ''upsert'' defaultEngine =
     (Inl (TypeError ''Cannot read properties of undefined (reading 'message')''),
      defaultEngine\<lparr> trace := [Attempted ''upsert'' 0] \<rparr>)"
  by (simp add: engine_eval)

text \<open>The failure counter after \<open>retryWithBackoff\<close>: zero after a success, unchanged after
  a failure.\<close>

lemma retryLoop_failures:
  "retryLoop operation ctx a le st = (r, st') \<Longrightarrow>
   consecutiveFailures (syncStats st') = (if isl r then consecutiveFailures (syncStats st) else 0)"
proof (induction operation ctx a le st arbitrary: r st' rule: retryLoop.induct)
  case (1 operation ctx attempt lastErr st)
  show ?case
  proof (cases "int attempt \<le> maxRetries (retryConfig st)")
    case False
    then show ?thesis using "1.prems" by (auto simp: retryLoop.simps[of _ _ attempt])
  next
    case True
    let ?st1 = "if attempt > 0 then sleep (backoffDelay (retryConfig st) attempt) st else st"
    let ?st2 = "?st1\<lparr> trace := trace ?st1 @ [Attempted ctx attempt] @ fst (operation attempt) \<rparr>"
    have s2: "consecutiveFailures (syncStats ?st2) = consecutiveFailures (syncStats st)"
      by (simp add: sleep_def)
    show ?thesis
    proof (cases "snd (operation attempt)")
      case (Inr x)
      then have "r = Inr x"
        and "st' = ?st2\<lparr> syncStats := (syncStats ?st2)\<lparr> consecutiveFailures := 0 \<rparr> \<rparr>"
        using True "1.prems" by (simp_all add: retryLoop.simps[of _ _ attempt] Let_def)
      then show ?thesis by simp
    next
      case (Inl e)
      show ?thesis
      proof (cases "e = Undefined \<or> e = Null")
        case u: True
        then have "isl r" and "st' = ?st2"
          using True Inl "1.prems" by (auto simp: retryLoop.simps[of _ _ attempt] Let_def)
        then show ?thesis using s2 by simp
      next
        case ne: False
        then have rec: "retryLoop operation ctx (Suc attempt) e ?st2 = (r, st')"
          using True Inl "1.prems" by (simp add: retryLoop.simps[of _ _ attempt] Let_def)
        from "1.IH"[OF True refl refl Inl ne rec] show ?thesis unfolding s2 .
      qed
    qed
  qed
qed

text \<open>
  The accounting of the failure counter where it works: a \<open>retryWithBackoff\<close> call that
  succeeds leaves \<open>consecutiveFailures\<close> at zero (one that fails leaves it as it was), a
  success of the first attempt included; and a \<open>logError\<close> call with an error object adds
  one to it.
\<close>

lemma consecutiveFailures_accounting:
  assumes "retryWithBackoff operation ctx st = (r, st')"
  shows "consecutiveFailures (syncStats st') =
           (if isl r then consecutiveFailures (syncStats st) else 0) \<and>
         (0 \<le> maxRetries (retryConfig st) \<and> snd (operation 0) = Inr x \<longrightarrow> r = Inr x) \<and>
         (err \<noteq> Undefined \<and> err \<noteq> Null \<longrightarrow>
           (\<exists>st''. logError errType uid err extra st = Inr st'' \<and>
              consecutiveFailures (syncStats st'') = consecutiveFailures (syncStats st) + 1))"
proof (intro conjI impI)
  show "consecutiveFailures (syncStats st') =
           (if isl r then consecutiveFailures (syncStats st) else 0)"
    using retryLoop_failures[of operation ctx 0 Undefined st r st'] assms(1)
    by (simp add: retryWithBackoff_def)
next
  assume "0 \<le> maxRetries (retryConfig st) \<and> snd (operation 0) = Inr x"
  then have "fst (retryWithBackoff operation ctx st) = Inr x"
    by (simp add: retryWithBackoff_def retryLoop.simps[of _ _ 0] Let_def)
  then show "r = Inr x" using assms(1) by simp
next
  assume "err \<noteq> Undefined \<and> err \<noteq> Null"
  then show "\<exists>st''. logError errType uid err extra st = Inr st'' \<and>
         consecutiveFailures (syncStats st'') = consecutiveFailures (syncStats st) + 1"
    by (simp add: logError_def)
qed

text \<open>
  C10. Not every \<open>logError\<close> call adds to \<open>consecutiveFailures\<close>. On a service started with
  \<open>MAX_RETRIES=-1\<close> the loop of \<open>retryWithBackoff\<close> makes no attempt and throws its
  \<open>lastError\<close>, which was never assigned; the \<open>catch\<close> of \<open>bulkSyncUsers\<close> hands this
  \<open>undefined\<close> to \<open>logError\<close>, which throws on reading \<open>error.message\<close> before it reaches the
  statistics: the call is not counted, and the engine leaves the loop over the rows as it
  entered it, with the counter still at 0.
\<close>

theorem logError_undefined_not_counted:
  "retryWithBackoff (upsertOperation fourRows (rowAt ''0b000000-0000-4000-8000-000000000000'' ''active'' 950000))
       ''bulk sync user 0b000000-0000-4000-8000-000000000000'' negativeRetries
     = (Inl Undefined, negativeRetries) \<and>
   logError ''BULK_SYNC_USER_FAILED'' (Some ''0b000000-0000-4000-8000-000000000000'') Undefined
       [(''userName'', Some ''null null''), (''userEmail'', None)] negativeRetries
     = Inl (TypeError ''Cannot read properties of undefined (reading 'message')'') \<and>
   syncUsers fourRows [rowAt ''0b000000-0000-4000-8000-000000000000'' ''active'' 950000] 0 0 negativeRetries
     = (Inl (TypeError ''Cannot read properties of undefined (reading 'message')''), negativeRetries) \<and>
   consecutiveFailures (syncStats negativeRetries) = 0"
proof -
  let ?row = "rowAt ''0b000000-0000-4000-8000-000000000000'' ''active'' 950000"
  have c: "bulkContext ?row = ''bulk sync user 0b000000-0000-4000-8000-000000000000''"
    by (simp add: bulkContext_def tmpl_def rowAt_def emptyRow_def)
  have m: "maxRetries (retryConfig negativeRetries) = - 1"
    by (simp add: negativeRetries_def defaultEngine_def)
  have 1: "retryWithBackoff (upsertOperation fourRows ?row)
       ''bulk sync user 0b000000-0000-4000-8000-000000000000'' negativeRetries
     = (Inl Undefined, negativeRetries)"
    unfolding retryWithBackoff_def using m by (subst retryLoop.simps) simp
  have 2: "logError ''BULK_SYNC_USER_FAILED'' (Some ''0b000000-0000-4000-8000-000000000000'') Undefined
       [(''userName'', Some ''null null''), (''userEmail'', None)] negativeRetries
     = Inl (TypeError ''Cannot read properties of undefined (reading 'message')'')"
    by (simp add: logError_def messageTypeError_def)
  have 3: "syncUsers fourRows [?row] 0 0 negativeRetries
     = (Inl (TypeError ''Cannot read properties of undefined (reading 'message')''), negativeRetries)"
    by (simp add: c 1 logError_def messageTypeError_def)
  have 4: "consecutiveFailures (syncStats negativeRetries) = 0"
    by (simp add: negativeRetries_def defaultEngine_def)
  show ?thesis using 1 2 3 4 by blast
qed

section \<open>Properties of the health evaluation\<close>

text \<open>
  C6. The claim as stated: HEALTHY exactly when all three signals hold. An engine that
  listens and has never completed a sync has no time since a last sync, so the second
  signal does not hold for it, and it is reported HEALTHY.
\<close>

theorem getHealthStatus_never_synced_counterexample:
  "status_h (getHealthStatus (defaultEngine\<lparr> isListening := True \<rparr>)) = HEALTHY \<and>
   lastSyncTime (syncStats (defaultEngine\<lparr> isListening := True \<rparr>)) = None \<and>
   \<not> allThreeSignals (defaultEngine\<lparr> isListening := True \<rparr>)"
  by (simp add: getHealthStatus_def timeSinceLastSync_def allThreeSignals_def defaultEngine_def Let_def)

text \<open>
  C6, amended. The status is HEALTHY exactly when the consecutive-failure count is below
  5, no sync has completed yet or the last one is less than 600 seconds ago, and the
  listener is listening; otherwise it is UNHEALTHY.
\<close>

theorem getHealthStatus_status:
  "status_h (getHealthStatus st) =
     (if consecutiveFailures (syncStats st) < 5 \<and>
         (case lastSyncTime (syncStats st) of
            Some t \<Rightarrow> (of_int (clock st - t) / 1000 :: rat) < 600
          | None \<Rightarrow> True) \<and>
         isListening st
      then HEALTHY else UNHEALTHY)"
  by (simp add: getHealthStatus_def timeSinceLastSync_def Let_def split: option.splits)

theorem getHealthStatus_status_witness:
  "status_h (getHealthStatus (listeningSince0 599999)) = HEALTHY \<and>
   status_h (getHealthStatus (listeningSince0 600000)) = UNHEALTHY \<and>
   status_h (getHealthStatus ((listeningSince0 1000) \<lparr> isListening := False \<rparr>)) = UNHEALTHY"
  using getHealthStatus_status[of "listeningSince0 599999"]
    getHealthStatus_status[of "listeningSince0 600000"]
    getHealthStatus_status[of "(listeningSince0 1000) \<lparr> isListening := False \<rparr>"]
  by (simp add: listeningSince0_def defaultEngine_def)

section \<open>Properties of the batch reconciliation\<close>

lemma pagesOf_append: "pagesOf (xs @ ys) = pagesOf xs @ pagesOf ys"
  by (induction xs rule: pagesOf.induct) simp_all

lemma firstAttempts_append: "firstAttempts (xs @ ys) = firstAttempts xs @ firstAttempts ys"
  by (induction xs rule: firstAttempts.induct) simp_all

lemma firstWrites_append: "firstWrites (xs @ ys) = firstWrites xs @ firstWrites ys"
  by (induction xs rule: firstWrites.induct) simp_all

lemma retryEvents_Suc:
  "a \<le> m \<Longrightarrow> retryEvents cfg ctx operation a (Suc m) = retryEvents cfg ctx operation a m @
     (if 0 < m then [Slept (backoffDelay cfg m)] else []) @ [Attempted ctx m] @ fst (operation m)"
  by (simp add: retryEvents_def backoffDelay_def)

lemma pagesOf_retryEvents:
  assumes "\<And>k. pagesOf (fst (operation k)) = []"
  shows "pagesOf (retryEvents cfg ctx operation a m) = []"
proof (induction m)
  case 0
  then show ?case by (simp add: retryEvents_def)
next
  case (Suc m)
  show ?case
  proof (cases "a \<le> m")
    case True
    then show ?thesis using Suc assms[of m] by (simp add: retryEvents_Suc pagesOf_append)
  next
    case False
    then show ?thesis by (simp add: retryEvents_def)
  qed
qed

lemma firstAttempts_retryEvents:
  assumes "\<And>k. firstAttempts (fst (operation k)) = []"
  shows "firstAttempts (retryEvents cfg ctx operation a m) = (if a = 0 \<and> 0 < m then [ctx] else [])"
proof (induction m)
  case 0
  then show ?case by (simp add: retryEvents_def)
next
  case (Suc m)
  show ?case
  proof (cases "a \<le> m")
    case True
    then show ?thesis using Suc assms[of m]
      by (auto simp: retryEvents_Suc firstAttempts_append)
  next
    case False
    then show ?thesis by (simp add: retryEvents_def)
  qed
qed

text \<open>What the upsert closure sends: the transformed record, once per attempt.\<close>

lemma upsertOperation_sent:
  "transformUserData user = Inr d \<Longrightarrow>
   fst (upsertOperation env user k) = [Upsert k d (chatInsert env d k)]"
  by (simp add: upsertOperation_def)

lemma upsertOperation_pagesOf: "pagesOf (fst (upsertOperation env user k)) = []"
  by (simp add: upsertOperation_def split: sum.splits)

lemma upsertOperation_firstAttempts: "firstAttempts (fst (upsertOperation env user k)) = []"
  by (simp add: upsertOperation_def split: sum.splits)

lemma firstWrites_retryEvents:
  assumes "transformUserData user = Inr d"
  shows "firstWrites (retryEvents cfg ctx (upsertOperation env user) a m) =
           (if a = 0 \<and> 0 < m then [d] else [])"
proof (induction m)
  case 0
  then show ?case by (simp add: retryEvents_def)
next
  case (Suc m)
  show ?case
  proof (cases "a \<le> m")
    case True
    then show ?thesis using Suc
      by (auto simp: retryEvents_Suc firstWrites_append upsertOperation_sent[OF assms])
  next
    case False
    then show ?thesis by (simp add: retryEvents_def)
  qed
qed

lemma buildFullName_defined: "buildFullName user \<notin> {Inl Undefined, Inl Null}"
  by (simp add: buildFullName_def Let_def split: option.splits)

lemma sanitizePhone_defined: "sanitizePhone p i \<notin> {Inl Undefined, Inl Null}"
  by (simp add: sanitizePhone_def placeholderPhone_def Let_def split: option.splits)

lemma transformUserData_defined: "transformUserData user \<notin> {Inl Undefined, Inl Null}"
  using buildFullName_defined[of user] sanitizePhone_defined[of "phone_src user" "id_src user"]
  by (auto simp: transformUserData_def split: sum.splits)

lemma upsertOperation_defined: "snd (upsertOperation env user k) \<notin> {Inl Undefined, Inl Null}"
  using transformUserData_defined[of user]
  by (auto simp: upsertOperation_def split: sum.splits option.splits)

text \<open>One row of a page, when the retry count is not negative: the write of its
  transformed record is attempted, and the call does not end with \<open>undefined\<close> or
  \<open>null\<close>.\<close>

lemma upsert_row:
  assumes "0 \<le> maxRetries (retryConfig st)"
    and "transformUserData user = Inr d"
    and "retryWithBackoff (upsertOperation env user) ctx st = (r, st')"
  shows "r \<notin> {Inl Undefined, Inl Null} \<and> retryConfig st' = retryConfig st \<and>
         pagesOf (trace st') = pagesOf (trace st) \<and>
         firstAttempts (trace st') = firstAttempts (trace st) @ [ctx] \<and>
         firstWrites (trace st') = firstWrites (trace st) @ [d]"
proof -
  let ?op = "upsertOperation env user"
  from retryLoop_spec[OF assms(3)[unfolded retryWithBackoff_def]] obtain m where
    m1: "trace st' = trace st @ retryEvents (retryConfig st) ctx ?op 0 m"
    and m2: "case r of
          Inr x \<Rightarrow> 0 < m \<and> snd (?op (m - 1)) = Inr x
        | Inl e \<Rightarrow>
            (\<forall>k. 0 \<le> k \<and> k < m \<longrightarrow> isl (snd (?op k))) \<and>
            (if 0 < m \<and> snd (?op (m - 1)) \<in> {Inl Undefined, Inl Null}
             then e = messageTypeError (projl (snd (?op (m - 1))))
             else int m = max (int 0) (maxRetries (retryConfig st) + 1) \<and>
                  e = (if m = 0 then Undefined else projl (snd (?op (m - 1)))))"
    by blast
  have nu: "snd (?op (m - 1)) \<notin> {Inl Undefined, Inl Null}" by (rule upsertOperation_defined)
  have pos: "0 < m"
  proof (cases r)
    case (Inr x)
    then show ?thesis using m2 by simp
  next
    case (Inl e)
    then have "int m = max (int 0) (maxRetries (retryConfig st) + 1)" using m2 nu by simp
    then show ?thesis using assms(1) by simp
  qed
  have "r \<notin> {Inl Undefined, Inl Null}"
  proof
    assume u: "r \<in> {Inl Undefined, Inl Null}"
    then obtain e where e: "r = Inl e" "e = Undefined \<or> e = Null" by auto
    have "isl (snd (?op (m - 1)))" "e = projl (snd (?op (m - 1)))"
      using m2 pos nu unfolding e(1) by auto
    then have "snd (?op (m - 1)) = Inl e" by (cases "snd (?op (m - 1))") auto
    then show False using nu e(2) by auto
  qed
  moreover have "retryConfig st' = retryConfig st"
    using retryLoop_config[of ?op ctx 0 Undefined st r st'] assms(3)
    by (simp add: retryWithBackoff_def)
  moreover have "pagesOf (trace st') = pagesOf (trace st)"
    unfolding m1 by (simp add: pagesOf_append pagesOf_retryEvents[OF upsertOperation_pagesOf])
  moreover have "firstAttempts (trace st') = firstAttempts (trace st) @ [ctx]"
    unfolding m1 using pos
    by (simp add: firstAttempts_append firstAttempts_retryEvents[OF upsertOperation_firstAttempts])
  moreover have "firstWrites (trace st') = firstWrites (trace st) @ [d]"
    unfolding m1 using pos
    by (simp add: firstWrites_append firstWrites_retryEvents[OF assms(2)])
  ultimately show ?thesis by simp
qed

lemma logError_trace:
  "logError t u e x st = Inr st' \<Longrightarrow> trace st' = trace st \<and> retryConfig st' = retryConfig st"
  by (auto simp: logError_def split: if_splits)

lemma syncUsers_rows:
  assumes "0 \<le> maxRetries (retryConfig st)" and "\<forall>u \<in> set users. id_src u \<noteq> None"
  shows "\<exists>sc ec st'. syncUsers env users successCount errorCount st = (Inr (sc, ec), st') \<and>
           sc + ec = successCount + errorCount + length users \<and>
           retryConfig st' = retryConfig st \<and>
           pagesOf (trace st') = pagesOf (trace st) \<and>
           firstAttempts (trace st') = firstAttempts (trace st) @ map bulkContext users \<and>
           map Inr (firstWrites (trace st')) =
             map Inr (firstWrites (trace st)) @ map transformUserData users"
  using assms
proof (induction users arbitrary: successCount errorCount st)
  case Nil
  then show ?case by simp
next
  case (Cons user rest)
  have "id_src user \<noteq> None" using Cons.prems(2) by simp
  then obtain d where d: "transformUserData user = Inr d"
    using transformUserData_total by blast
  have ids: "\<forall>u \<in> set rest. id_src u \<noteq> None" using Cons.prems(2) by simp
  obtain r st1 where h: "retryWithBackoff (upsertOperation env user) (bulkContext user) st = (r, st1)"
    by (cases "retryWithBackoff (upsertOperation env user) (bulkContext user) st")
  from upsert_row[OF Cons.prems(1) d h]
  have r: "r \<notin> {Inl Undefined, Inl Null}" and c1: "retryConfig st1 = retryConfig st"
    and p1: "pagesOf (trace st1) = pagesOf (trace st)"
    and f1: "firstAttempts (trace st1) = firstAttempts (trace st) @ [bulkContext user]"
    and w1: "firstWrites (trace st1) = firstWrites (trace st) @ [d]"
    by simp_all
  have step: "\<exists>sc ec st'. syncUsers env (user # rest) successCount errorCount st = (Inr (sc, ec), st') \<and>
           sc + ec = successCount + errorCount + length (user # rest) \<and>
           retryConfig st' = retryConfig st \<and>
           pagesOf (trace st') = pagesOf (trace st) \<and>
           firstAttempts (trace st') = firstAttempts (trace st) @ map bulkContext (user # rest) \<and>
           map Inr (firstWrites (trace st')) =
             map Inr (firstWrites (trace st)) @ map transformUserData (user # rest)"
    if e: "syncUsers env (user # rest) successCount errorCount st = syncUsers env rest sc0 ec0 st2"
      and n: "sc0 + ec0 = successCount + errorCount + 1"
      and t2: "trace st2 = trace st1" and c2: "retryConfig st2 = retryConfig st1"
    for sc0 ec0 st2
  proof -
    have m2: "0 \<le> maxRetries (retryConfig st2)" using Cons.prems(1) c1 c2 by simp
    from Cons.IH[OF m2 ids, of sc0 ec0]
    obtain sc ec st' where
      i1: "syncUsers env rest sc0 ec0 st2 = (Inr (sc, ec), st')"
      and i2: "sc + ec = sc0 + ec0 + length rest"
      and i3: "retryConfig st' = retryConfig st2"
      and i4: "pagesOf (trace st') = pagesOf (trace st2)"
      and i5: "firstAttempts (trace st') = firstAttempts (trace st2) @ map bulkContext rest"
      and i6: "map Inr (firstWrites (trace st')) =
                 map Inr (firstWrites (trace st2)) @ map transformUserData rest"
      by blast
    have j1: "syncUsers env (user # rest) successCount errorCount st = (Inr (sc, ec), st')"
      unfolding e by (rule i1)
    have j2: "sc + ec = successCount + errorCount + length (user # rest)"
      using i2 n by simp
    have j3: "retryConfig st' = retryConfig st" unfolding i3 c2 c1 ..
    have j4: "pagesOf (trace st') = pagesOf (trace st)" unfolding i4 t2 p1 ..
    have j5: "firstAttempts (trace st') = firstAttempts (trace st) @ map bulkContext (user # rest)"
      unfolding i5 t2 f1 by simp
    have j6: "map Inr (firstWrites (trace st')) =
             map Inr (firstWrites (trace st)) @ map transformUserData (user # rest)"
      unfolding i6 t2 w1 by (simp add: d)
    show ?thesis using j1 j2 j3 j4 j5 j6 by blast
  qed
  show ?case
  proof (cases r)
    case (Inr u)
    have e: "syncUsers env (user # rest) successCount errorCount st
             = syncUsers env rest (successCount + 1) errorCount st1"
      by (simp add: h Inr)
    show ?thesis by (rule step[OF e _ refl refl]) simp
  next
    case (Inl err)
    then have "err \<noteq> Undefined \<and> err \<noteq> Null" using r by simp
    then obtain st2 where l: "logError ''BULK_SYNC_USER_FAILED'' (id_src user) err
                  [(''userName'', Some (tmpl (first_name user) @ '' '' @ tmpl (last_name user))),
                   (''userEmail'', email_src user)] st1 = Inr st2"
      by (simp add: logError_def)
    from logError_trace[OF l] have t2: "trace st2 = trace st1" "retryConfig st2 = retryConfig st1"
      by simp_all
    have e: "syncUsers env (user # rest) successCount errorCount st
             = syncUsers env rest successCount (errorCount + 1) st2"
      using l by (simp add: h Inl)
    show ?thesis by (rule step[OF e _ t2]) simp
  qed
qed

lemma selectUsers_ids: "u \<in> set (selectUsers rows limit offset sinceDate) \<Longrightarrow> id_src u \<noteq> None"
proof -
  assume "u \<in> set (selectUsers rows limit offset sinceDate)"
  then have "u \<in> set (orderByUpdatedAtDesc (filter (whereClause sinceDate) rows))"
    unfolding selectUsers_def by (meson in_set_dropD in_set_takeD)
  then have "whereClause sinceDate u" by (simp add: orderByUpdatedAtDesc_def)
  then show ?thesis by (simp add: whereClause_def)
qed

lemma bulkSyncUsers_page:
  fixes limit offset :: nat and sinceDate :: "int option" and env :: env
  assumes "0 \<le> maxRetries (retryConfig st)" and "sourceQueryError env offset = None"
  defines "page \<equiv> selectUsers (sourceTable env) limit offset sinceDate"
  shows "\<exists>st'. bulkSyncUsers env limit offset sinceDate st = (Inr (page \<noteq> [] \<and> length page = limit), st') \<and>
           retryConfig st' = retryConfig st \<and>
           pagesOf (trace st') = pagesOf (trace st) @ [page] \<and>
           firstAttempts (trace st') = firstAttempts (trace st) @ map bulkContext page \<and>
           map Inr (firstWrites (trace st')) =
             map Inr (firstWrites (trace st)) @ map transformUserData page"
proof -
  have ids: "\<forall>u \<in> set page. id_src u \<noteq> None"
    unfolding page_def using selectUsers_ids by blast
  have q: "sourcePoolQuery env limit offset sinceDate = Inr page"
    using assms(2) by (simp add: sourcePoolQuery_def page_def)
  let ?st0 = "st\<lparr> trace := trace st @ [Queried limit offset page] \<rparr>"
  show ?thesis
  proof (cases "page = []")
    case True
    then have "bulkSyncUsers env limit offset sinceDate st = (Inr False, ?st0)"
      by (simp add: bulkSyncUsers_def q Let_def)
    then show ?thesis using True
      by (simp add: pagesOf_append firstAttempts_append firstWrites_append)
  next
    case False
    have m0: "0 \<le> maxRetries (retryConfig ?st0)" using assms(1) by simp
    from syncUsers_rows[OF m0 ids, of env 0 0]
    obtain sc ec st1 where s: "syncUsers env page 0 0 ?st0 = (Inr (sc, ec), st1)"
      and c: "retryConfig st1 = retryConfig ?st0"
      and p: "pagesOf (trace st1) = pagesOf (trace ?st0)"
      and f: "firstAttempts (trace st1) = firstAttempts (trace ?st0) @ map bulkContext page"
      and w: "map Inr (firstWrites (trace st1)) =
                map Inr (firstWrites (trace ?st0)) @ map transformUserData page"
      by blast
    let ?st' = "st1\<lparr> syncStats := (syncStats st1)\<lparr>
                                totalSynced := totalSynced (syncStats st1) + sc,
                                errors := errors (syncStats st1) + ec,
                                lastSyncTime := Some (clock st1) \<rparr> \<rparr>"
    have "bulkSyncUsers env limit offset sinceDate st = (Inr (length page = limit), ?st')"
      using False by (simp add: bulkSyncUsers_def q Let_def s)
    then show ?thesis using False c p f w
      by (simp add: pagesOf_append firstAttempts_append firstWrites_append)
  qed
qed

lemma pagesFrom_concat: "0 < limit \<Longrightarrow> concat (pagesFrom limit xs) = xs"
proof (induction limit xs rule: pagesFrom.induct)
  case (1 limit xs)
  show ?case
  proof (cases "limit = 0 \<or> length xs < limit")
    case True
    then show ?thesis using "1.prems" by (simp add: pagesFrom.simps[of limit xs])
  next
    case False
    then show ?thesis using "1.IH"[OF False "1.prems"]
      by (simp add: pagesFrom.simps[of limit xs])
  qed
qed

lemma pagesFrom_shape:
  "pagesFrom limit xs \<noteq> [] \<and>
   (0 < limit \<longrightarrow> length (last (pagesFrom limit xs)) < limit) \<and>
   list_all (\<lambda>p. length p = limit) (butlast (pagesFrom limit xs))"
proof (induction limit xs rule: pagesFrom.induct)
  case (1 limit xs)
  show ?case
  proof (cases "limit = 0 \<or> length xs < limit")
    case True
    then show ?thesis by (auto simp: pagesFrom.simps[of limit xs])
  next
    case False
    then show ?thesis using "1.IH"[OF False]
      by (simp add: pagesFrom.simps[of limit xs])
  qed
qed

lemma syncLoop_pages:
  "0 \<le> maxRetries (retryConfig st) \<Longrightarrow> (\<And>k. sourceQueryError env k = None) \<Longrightarrow> 0 < limit \<Longrightarrow>
   \<exists>st'. syncLoop env limit offset sinceT st = (Inr (), st') \<and>
           retryConfig st' = retryConfig st \<and>
           pagesOf (trace st') = pagesOf (trace st) @
             pagesFrom limit (drop offset (orderByUpdatedAtDesc
                (filter (whereClause (Some sinceT)) (sourceTable env)))) \<and>
           firstAttempts (trace st') = firstAttempts (trace st) @
             map bulkContext (drop offset (orderByUpdatedAtDesc
                (filter (whereClause (Some sinceT)) (sourceTable env)))) \<and>
           map Inr (firstWrites (trace st')) = map Inr (firstWrites (trace st)) @
             map transformUserData (drop offset (orderByUpdatedAtDesc
                (filter (whereClause (Some sinceT)) (sourceTable env))))"
proof (induction env limit offset sinceT st rule: syncLoop.induct)
  case (1 env limit offset sinceT st)
  let ?E = "orderByUpdatedAtDesc (filter (whereClause (Some sinceT)) (sourceTable env))"
  let ?page = "selectUsers (sourceTable env) limit offset (Some sinceT)"
  have pg: "?page = take limit (drop offset ?E)" by (simp add: selectUsers_def)
  from bulkSyncUsers_page[OF "1.prems"(1) "1.prems"(2)[of offset], of limit "Some sinceT"]
  obtain st1 where b: "bulkSyncUsers env limit offset (Some sinceT) st
        = (Inr (?page \<noteq> [] \<and> length ?page = limit), st1)"
    and c1: "retryConfig st1 = retryConfig st"
    and p1: "pagesOf (trace st1) = pagesOf (trace st) @ [?page]"
    and f1: "firstAttempts (trace st1) = firstAttempts (trace st) @ map bulkContext ?page"
    and w1: "map Inr (firstWrites (trace st1)) =
               map Inr (firstWrites (trace st)) @ map transformUserData ?page"
    by blast
  show ?case
  proof (cases "?page \<noteq> [] \<and> length ?page = limit")
    case False
    then have b0: "bulkSyncUsers env limit offset (Some sinceT) st = (Inr False, st1)"
      using b by simp
    have e: "syncLoop env limit offset sinceT st = (Inr (), st1)"
      by (simp add: syncLoop.simps[of env limit offset] b0)
    have short: "length (drop offset ?E) < limit"
      using False "1.prems"(3) unfolding pg by auto
    then have "pagesFrom limit (drop offset ?E) = [?page]"
      unfolding pg by (simp add: pagesFrom.simps[of limit "drop offset ?E"])
    moreover have "?page = drop offset ?E" using short unfolding pg by simp
    ultimately show ?thesis using e c1 p1 f1 w1 by simp
  next
    case True
    then have b': "bulkSyncUsers env limit offset (Some sinceT) st = (Inr True, st1)"
      using b by simp
    have e: "syncLoop env limit offset sinceT st = syncLoop env limit (offset + limit) sinceT st1"
      using b' by (simp add: syncLoop.simps[of env limit offset])
    have m1: "0 \<le> maxRetries (retryConfig st1)" using "1.prems"(1) c1 by simp
    from "1.IH"[OF b'[symmetric] refl TrueI m1 "1.prems"(2) "1.prems"(3)]
    obtain st' where r: "syncLoop env limit (offset + limit) sinceT st1 = (Inr (), st')"
      and c2: "retryConfig st' = retryConfig st1"
      and p2: "pagesOf (trace st') = pagesOf (trace st1) @ pagesFrom limit (drop (offset + limit) ?E)"
      and f2: "firstAttempts (trace st') = firstAttempts (trace st1) @
                  map bulkContext (drop (offset + limit) ?E)"
      and w2: "map Inr (firstWrites (trace st')) = map Inr (firstWrites (trace st1)) @
                  map transformUserData (drop (offset + limit) ?E)"
      by blast
    have full: "\<not> (limit = 0 \<or> length (drop offset ?E) < limit)"
      using True unfolding pg by auto
    have pf: "pagesFrom limit (drop offset ?E) = ?page # pagesFrom limit (drop (offset + limit) ?E)"
      using full unfolding pg
      by (simp add: pagesFrom.simps[of limit "drop offset ?E"] add.commute)
    have "drop (offset + limit) ?E = drop limit (drop offset ?E)"
      by (simp add: add.commute)
    then have dr: "drop offset ?E = ?page @ drop (offset + limit) ?E"
      unfolding pg by (simp only: append_take_drop_id)
    have "pagesOf (trace st') = pagesOf (trace st) @ pagesFrom limit (drop offset ?E)"
      unfolding p2 p1 pf by simp
    moreover have "firstAttempts (trace st') = firstAttempts (trace st) @ map bulkContext (drop offset ?E)"
      unfolding f2 f1 by (subst dr) simp
    moreover have "map Inr (firstWrites (trace st')) =
        map Inr (firstWrites (trace st)) @ map transformUserData (drop offset ?E)"
      unfolding w2 w1 by (subst dr) simp
    ultimately show ?thesis using e r c2 c1 by simp
  qed
qed

lemma selected_rows:
  "mset (orderByUpdatedAtDesc (filter (whereClause (Some s)) rows)) =
     filter_mset (\<lambda>u. status_src u = Some ''active'' \<and> id_src u \<noteq> None \<and>
                      (\<exists>t. updated_at u = Some t \<and> s < t)) (mset rows)"
proof -
  have "whereClause (Some s) = (\<lambda>u. status_src u = Some ''active'' \<and> id_src u \<noteq> None \<and>
                      (\<exists>t. updated_at u = Some t \<and> s < t))"
    by (auto simp: whereClause_def fun_eq_iff split: option.splits)
  then show ?thesis by (simp add: orderByUpdatedAtDesc_def)
qed

lemma selected_rows_descending:
  "sorted_wrt (\<lambda>a b. the (updated_at b) \<le> the (updated_at a))
     (orderByUpdatedAtDesc (filter (whereClause (Some s)) rows))"
proof -
  let ?E = "orderByUpdatedAtDesc (filter (whereClause (Some s)) rows)"
  let ?key = "\<lambda>u. map_option uminus (updated_at u)"
  have "sorted (map ?key ?E)" unfolding orderByUpdatedAtDesc_def by (rule sorted_sort_key)
  then have 1: "sorted_wrt (\<lambda>a b. ?key a \<le> ?key b) ?E" by (simp add: sorted_map)
  have 2: "\<And>u. u \<in> set ?E \<Longrightarrow> \<exists>t. updated_at u = Some t"
    by (auto simp: orderByUpdatedAtDesc_def whereClause_def split: option.splits)
  show ?thesis
  proof (rule sorted_wrt_mono_rel[OF _ 1])
    fix a b assume "a \<in> set ?E" "b \<in> set ?E" "?key a \<le> ?key b"
    then show "the (updated_at b) \<le> the (updated_at a)" using 2[of a] 2[of b] by auto
  qed
qed

lemma scheduleNextSync_trace: "trace (scheduleNextSync iv st) = trace st"
  by (simp add: scheduleNextSync_def setTimeout_def clearTimeout_def Let_def split: option.splits prod.splits)

text \<open>
  A scheduled pass that starts at time \<open>clock st\<close> with interval \<open>intervalMin\<close>, whose
  source queries succeed, on an engine whose retry count is not negative: the pass in
  flight carries the lower bound \<open>since\<close>, the time of the start minus
  \<open>intervalMin * syncWindowMultiplier\<close> minutes. The pages its queries return are those of
  \<open>pagesFrom 500\<close>: every page but the last has 500 rows and the last one has fewer, so
  the loop stops exactly at the first page that is not full. Together the pages are
  exactly the rows with status \<open>active\<close>, an id and an \<open>updated_at\<close> after \<open>since\<close>, each
  once, the later \<open>updated_at\<close> first; for each of them, in that order, the upsert is
  attempted, and the record sent to the destination store is the one that
  \<open>transformUserData\<close> makes of the row.
\<close>

lemma scheduled_pass_pages:
  assumes "\<not> isSyncInProgress st" and "0 \<le> maxRetries (retryConfig st)"
    and "\<forall>k. sourceQueryError env k = None"
    and "since = clock st - (intervalMin * syncWindowMultiplier st) * 60 * 1000"
    and "p = \<lparr> pass_interval = intervalMin, pass_start = clock st, pass_since = since \<rparr>"
    and "st' = runScheduledSyncCycle_finish env p (runScheduledSyncCycle_start intervalMin st)"
    and "pages = pagesFrom 500 (orderByUpdatedAtDesc (filter (whereClause (Some since)) (sourceTable env)))"
  shows "running (runScheduledSyncCycle_start intervalMin st) = running st @ [p] \<and>
         pagesOf (trace st') = pagesOf (trace st) @ pages \<and>
         firstAttempts (trace st') = firstAttempts (trace st) @ map bulkContext (concat pages) \<and>
         map Inr (firstWrites (trace st')) =
           map Inr (firstWrites (trace st)) @ map transformUserData (concat pages) \<and>
         mset (concat pages) =
           filter_mset (\<lambda>u. status_src u = Some ''active'' \<and> id_src u \<noteq> None \<and>
                            (\<exists>t. updated_at u = Some t \<and> since < t)) (mset (sourceTable env)) \<and>
         sorted_wrt (\<lambda>a b. the (updated_at b) \<le> the (updated_at a)) (concat pages) \<and>
         pages \<noteq> [] \<and> length (last pages) < 500 \<and>
         list_all (\<lambda>page. length page = 500) (butlast pages)"
proof -
  let ?E = "orderByUpdatedAtDesc (filter (whereClause (Some since)) (sourceTable env))"
  let ?s0 = "runScheduledSyncCycle_start intervalMin st"
  have s0: "?s0 = st\<lparr> isSyncInProgress := True,
               syncStats := (syncStats st)\<lparr> scheduledSyncActive := True \<rparr>,
               running := running st @ [p] \<rparr>"
    using assms(1) by (simp add: runScheduledSyncCycle_start_def assms(4,5))
  have r0: "running ?s0 = running st @ [p]" unfolding s0 by simp
  have m0: "0 \<le> maxRetries (retryConfig ?s0)" unfolding s0 using assms(2) by simp
  have t0: "trace ?s0 = trace st" unfolding s0 by simp
  have ps: "pass_since p = since" by (simp add: assms(5))
  from syncLoop_pages[OF m0, of env 500 0 since] assms(3)
  obtain st1 where l: "syncLoop env 500 0 since ?s0 = (Inr (), st1)"
    and p1: "pagesOf (trace st1) = pagesOf (trace ?s0) @ pagesFrom 500 ?E"
    and f1: "firstAttempts (trace st1) = firstAttempts (trace ?s0) @ map bulkContext ?E"
    and w1: "map Inr (firstWrites (trace st1)) =
               map Inr (firstWrites (trace ?s0)) @ map transformUserData ?E"
    by auto
  have tr: "trace st' = trace st1"
    unfolding assms(6) by (simp add: runScheduledSyncCycle_finish_def ps l scheduleNextSync_trace)
  have cc: "concat pages = ?E" unfolding assms(7) by (simp add: pagesFrom_concat)
  have 1: "pagesOf (trace st') = pagesOf (trace st) @ pages"
    unfolding tr p1 t0 assms(7) ..
  have 2: "firstAttempts (trace st') = firstAttempts (trace st) @ map bulkContext (concat pages)"
    unfolding tr f1 t0 cc ..
  have 3: "mset (concat pages) =
           filter_mset (\<lambda>u. status_src u = Some ''active'' \<and> id_src u \<noteq> None \<and>
                            (\<exists>t. updated_at u = Some t \<and> since < t)) (mset (sourceTable env))"
    unfolding cc by (rule selected_rows)
  have 4: "sorted_wrt (\<lambda>a b. the (updated_at b) \<le> the (updated_at a)) (concat pages)"
    unfolding cc by (rule selected_rows_descending)
  have 5: "pages \<noteq> [] \<and> length (last pages) < 500 \<and>
         list_all (\<lambda>page. length page = 500) (butlast pages)"
    unfolding assms(7) using pagesFrom_shape[of 500 ?E] by simp
  have 6: "map Inr (firstWrites (trace st')) =
           map Inr (firstWrites (trace st)) @ map transformUserData (concat pages)"
    unfolding tr w1 t0 cc ..
  show ?thesis using r0 1 2 3 4 5 6 by blast
qed

text \<open>The rows that a pass started at time 1000000 with an interval of one minute selects
  from the table \<open>fourRows\<close>.\<close>

lemma fourRows_selected:
  "orderByUpdatedAtDesc (filter (whereClause (Some 820000)) (sourceTable fourRows))
     = [rowAt ''0b000000-0000-4000-8000-000000000000'' ''active'' 950000,
        rowAt ''0a000000-0000-4000-8000-000000000000'' ''active'' 900000]"
  by (simp add: orderByUpdatedAtDesc_def whereClause_def fourRows_def rowAt_def emptyRow_def)

text \<open>With the default configuration that pass queries one page and attempts the upsert of
  both rows, sending the transformed records.\<close>

lemma scheduled_pass_pages_default:
  "pagesOf (trace (runScheduledSyncCycle_finish fourRows
       \<lparr> pass_interval = 1, pass_start = 1000000, pass_since = 820000 \<rparr>
       (runScheduledSyncCycle_start 1 (defaultEngine\<lparr> clock := 1000000 \<rparr>))))
     = [[rowAt ''0b000000-0000-4000-8000-000000000000'' ''active'' 950000,
         rowAt ''0a000000-0000-4000-8000-000000000000'' ''active'' 900000]] \<and>
   firstAttempts (trace (runScheduledSyncCycle_finish fourRows
       \<lparr> pass_interval = 1, pass_start = 1000000, pass_since = 820000 \<rparr>
       (runScheduledSyncCycle_start 1 (defaultEngine\<lparr> clock := 1000000 \<rparr>))))
     = [''bulk sync user 0b000000-0000-4000-8000-000000000000'',
        ''bulk sync user 0a000000-0000-4000-8000-000000000000''] \<and>
   map Inr (firstWrites (trace (runScheduledSyncCycle_finish fourRows
       \<lparr> pass_interval = 1, pass_start = 1000000, pass_since = 820000 \<rparr>
       (runScheduledSyncCycle_start 1 (defaultEngine\<lparr> clock := 1000000 \<rparr>)))))
     = [transformUserData (rowAt ''0b000000-0000-4000-8000-000000000000'' ''active'' 950000),
        transformUserData (rowAt ''0a000000-0000-4000-8000-000000000000'' ''active'' 900000)]"
proof -
  let ?st = "defaultEngine\<lparr> clock := 1000000 \<rparr>"
  let ?p = "\<lparr> pass_interval = 1, pass_start = 1000000, pass_since = 820000 \<rparr>"
  let ?b = "rowAt ''0b000000-0000-4000-8000-000000000000'' ''active'' 950000"
  let ?a = "rowAt ''0a000000-0000-4000-8000-000000000000'' ''active'' 900000"
  have h1: "\<not> isSyncInProgress ?st" by (simp add: defaultEngine_def)
  have h2: "0 \<le> maxRetries (retryConfig ?st)" by (simp add: defaultEngine_def)
  have h3: "\<forall>k. sourceQueryError fourRows k = None" by (simp add: fourRows_def)
  have h4: "(820000::int) = clock ?st - (1 * syncWindowMultiplier ?st) * 60 * 1000"
    by (simp add: defaultEngine_def)
  have h5: "?p = \<lparr> pass_interval = 1, pass_start = clock ?st, pass_since = 820000 \<rparr>"
    by (simp add: defaultEngine_def)
  have P: "pagesFrom 500 [?b, ?a] = [[?b, ?a]]"
    by (simp add: pagesFrom.simps)
  have B: "map bulkContext [?b, ?a]
           = [''bulk sync user 0b000000-0000-4000-8000-000000000000'',
              ''bulk sync user 0a000000-0000-4000-8000-000000000000'']"
    by (simp add: bulkContext_def tmpl_def rowAt_def emptyRow_def)
  have T: "trace ?st = []" by (simp add: defaultEngine_def)
  note c = scheduled_pass_pages[OF h1 h2 h3 h4 h5 refl refl, unfolded fourRows_selected P]
  have c1: "pagesOf (trace (runScheduledSyncCycle_finish fourRows ?p (runScheduledSyncCycle_start 1 ?st)))
     = [[?b, ?a]]"
    using c T by simp
  have c2: "firstAttempts (trace (runScheduledSyncCycle_finish fourRows ?p (runScheduledSyncCycle_start 1 ?st)))
     = [''bulk sync user 0b000000-0000-4000-8000-000000000000'',
        ''bulk sync user 0a000000-0000-4000-8000-000000000000'']"
    using c T B by simp
  have c3: "map Inr (firstWrites (trace (runScheduledSyncCycle_finish fourRows ?p
                (runScheduledSyncCycle_start 1 ?st))))
     = [transformUserData ?b, transformUserData ?a]"
    using c T by simp
  show ?thesis using c1 c2 c3 by blast
qed

text \<open>
  C4. The rows that a scheduled pass selects are not always processed. On a service
  started with \<open>MAX_RETRIES=-1\<close>, the pass that starts at time 1000000 queries its first
  page, which holds the two eligible rows of \<open>fourRows\<close>; for the first row
  \<open>retryWithBackoff\<close> makes no attempt and throws \<open>undefined\<close>, \<open>logError\<close> throws on it, and
  the pass ends there: no upsert is attempted, nothing is sent to the destination store,
  and the loop has stopped on the error, not on a page that is not full.
\<close>

theorem scheduled_pass_without_attempts:
  "running (runScheduledSyncCycle_start 1 negativeRetries) =
     [\<lparr> pass_interval = 1, pass_start = 1000000, pass_since = 820000 \<rparr>] \<and>
   fst (syncLoop fourRows 500 0 820000 (runScheduledSyncCycle_start 1 negativeRetries)) =
     Inl (TypeError ''Cannot read properties of undefined (reading 'message')'') \<and>
   trace (runScheduledSyncCycle_finish fourRows
       \<lparr> pass_interval = 1, pass_start = 1000000, pass_since = 820000 \<rparr>
       (runScheduledSyncCycle_start 1 negativeRetries))
     = [Queried 500 0 [rowAt ''0b000000-0000-4000-8000-000000000000'' ''active'' 950000,
                       rowAt ''0a000000-0000-4000-8000-000000000000'' ''active'' 900000]]"
proof -
  let ?p = "\<lparr> pass_interval = 1, pass_start = 1000000, pass_since = 820000 \<rparr>"
  let ?b = "rowAt ''0b000000-0000-4000-8000-000000000000'' ''active'' 950000"
  let ?a = "rowAt ''0a000000-0000-4000-8000-000000000000'' ''active'' 900000"
  let ?s0 = "negativeRetries\<lparr> isSyncInProgress := True,
               syncStats := (syncStats negativeRetries)\<lparr> scheduledSyncActive := True \<rparr>,
               running := [?p] \<rparr>"
  let ?s1 = "?s0\<lparr> trace := [Queried 500 0 [?b, ?a]] \<rparr>"
  let ?te = "TypeError ''Cannot read properties of undefined (reading 'message')''"
  have s0: "runScheduledSyncCycle_start 1 negativeRetries = ?s0"
    by (simp add: runScheduledSyncCycle_start_def negativeRetries_def defaultEngine_def)
  have q: "sourcePoolQuery fourRows 500 0 (Some 820000) = Inr [?b, ?a]"
    using fourRows_selected by (simp add: sourcePoolQuery_def selectUsers_def fourRows_def)
  have mr: "maxRetries (retryConfig ?s1) = - 1" "trace ?s0 = []"
    by (simp_all add: negativeRetries_def defaultEngine_def)
  have rw: "retryWithBackoff (upsertOperation fourRows ?b) (bulkContext ?b) ?s1 = (Inl Undefined, ?s1)"
    unfolding retryWithBackoff_def using mr(1) by (subst retryLoop.simps) simp
  have su: "syncUsers fourRows [?b, ?a] 0 0 ?s1 = (Inl ?te, ?s1)"
    by (simp add: rw logError_def messageTypeError_def)
  obtain s2 where lg: "logError ''BULK_SYNC_FAILED'' None ?te
             [(''limit'', Some (toDecimal 500)), (''offset'', Some (toDecimal 0)),
              (''sinceDate'', map_option intToString (Some 820000))] ?s1 = Inr s2"
    and t2: "trace s2 = trace ?s1"
    by (simp add: logError_def)
  have bf: "bulkSyncFailed ?te 500 0 (Some 820000) ?s1 = (Inl ?te, s2)"
    using lg by (simp add: bulkSyncFailed_def)
  have bs: "bulkSyncUsers fourRows 500 0 (Some 820000) ?s0 = (Inl ?te, s2)"
    using mr(2) by (simp add: bulkSyncUsers_def q Let_def su bf del: syncUsers.simps)
  have sl: "syncLoop fourRows 500 0 820000 ?s0 = (Inl ?te, s2)"
    by (subst syncLoop.simps) (simp add: bs)
  obtain s3 where l3: "logError ''SCHEDULED_SYNC_FAILED'' None ?te [] s2 = Inr s3"
    and t3: "trace s3 = trace s2"
    by (simp add: logError_def)
  have "trace (runScheduledSyncCycle_finish fourRows ?p ?s0) = trace s3"
    by (simp add: runScheduledSyncCycle_finish_def sl l3 scheduleNextSync_trace)
  then have tr: "trace (runScheduledSyncCycle_finish fourRows ?p ?s0) = [Queried 500 0 [?b, ?a]]"
    unfolding t3 t2 by simp
  have 1: "running (runScheduledSyncCycle_start 1 negativeRetries) = [?p]" unfolding s0 by simp
  have 2: "fst (syncLoop fourRows 500 0 820000 (runScheduledSyncCycle_start 1 negativeRetries)) = Inl ?te"
    unfolding s0 sl by simp
  have 3: "trace (runScheduledSyncCycle_finish fourRows ?p (runScheduledSyncCycle_start 1 negativeRetries))
     = [Queried 500 0 [?b, ?a]]"
    unfolding s0 by (rule tr)
  show ?thesis using 1 2 3 by blast
qed

section \<open>Properties of the scheduling and of the reconnection\<close>

lemma sameControl_refl: "sameControl st st"
  by (simp add: sameControl_def)

lemma sameControl_trans: "sameControl a b \<Longrightarrow> sameControl b c \<Longrightarrow> sameControl a c"
  by (simp add: sameControl_def)

lemma logError_sameControl: "logError t u e x st = Inr st' \<Longrightarrow> sameControl st st'"
  by (auto simp: logError_def sameControl_def split: if_splits)

lemma retryLoop_sameControl:
  "retryLoop operation ctx a le st = (r, st') \<Longrightarrow> sameControl st st'"
proof (induction operation ctx a le st arbitrary: r st' rule: retryLoop.induct)
  case (1 operation ctx attempt lastErr st)
  show ?case
  proof (cases "int attempt \<le> maxRetries (retryConfig st)")
    case False
    then show ?thesis using "1.prems"
      by (simp add: retryLoop.simps[of _ _ attempt] sameControl_refl)
  next
    case True
    let ?st1 = "if attempt > 0 then sleep (backoffDelay (retryConfig st) attempt) st else st"
    let ?st2 = "?st1\<lparr> trace := trace ?st1 @ [Attempted ctx attempt] @ fst (operation attempt) \<rparr>"
    have s2: "sameControl st ?st2" by (simp add: sameControl_def sleep_def)
    show ?thesis
    proof (cases "snd (operation attempt)")
      case (Inr x)
      then have "st' = ?st2\<lparr> syncStats := (syncStats ?st2)\<lparr> consecutiveFailures := 0 \<rparr> \<rparr>"
        using True "1.prems" by (simp add: retryLoop.simps[of _ _ attempt] Let_def)
      then show ?thesis by (simp add: sameControl_def sleep_def)
    next
      case (Inl e)
      show ?thesis
      proof (cases "e = Undefined \<or> e = Null")
        case u: True
        then have "st' = ?st2"
          using True Inl "1.prems" by (simp add: retryLoop.simps[of _ _ attempt] Let_def)
        then show ?thesis using s2 by simp
      next
        case ne: False
        then have rec: "retryLoop operation ctx (Suc attempt) e ?st2 = (r, st')"
          using True Inl "1.prems" by (simp add: retryLoop.simps[of _ _ attempt] Let_def)
        from "1.IH"[OF True refl refl Inl ne rec] s2 show ?thesis by (rule sameControl_trans[rotated])
      qed
    qed
  qed
qed

lemma syncUsers_sameControl:
  "syncUsers env users sc ec st = (r, st') \<Longrightarrow> sameControl st st'"
proof (induction users arbitrary: sc ec st)
  case Nil
  then show ?case by (simp add: sameControl_refl)
next
  case (Cons user rest)
  obtain r1 st1 where h: "retryWithBackoff (upsertOperation env user) (bulkContext user) st = (r1, st1)"
    by (cases "retryWithBackoff (upsertOperation env user) (bulkContext user) st")
  have c1: "sameControl st st1"
    using retryLoop_sameControl h by (simp add: retryWithBackoff_def)
  show ?case
  proof (cases r1)
    case (Inr u)
    then have "syncUsers env rest (sc + 1) ec st1 = (r, st')" using Cons.prems h by simp
    from Cons.IH[OF this] c1 show ?thesis by (rule sameControl_trans[rotated])
  next
    case (Inl err)
    show ?thesis
    proof (cases "logError ''BULK_SYNC_USER_FAILED'' (id_src user) err
                  [(''userName'', Some (tmpl (first_name user) @ '' '' @ tmpl (last_name user))),
                   (''userEmail'', email_src user)] st1")
      case l: (Inl e)
      then have "st' = st1" using Cons.prems h Inl by simp
      then show ?thesis using c1 by simp
    next
      case l: (Inr st2)
      then have "syncUsers env rest sc (ec + 1) st2 = (r, st')" using Cons.prems h Inl by simp
      from Cons.IH[OF this] have "sameControl st2 st'" .
      moreover have "sameControl st1 st2" using logError_sameControl[OF l] .
      ultimately show ?thesis using c1 sameControl_trans by blast
    qed
  qed
qed

lemma bulkSyncFailed_sameControl:
  "bulkSyncFailed err limit offset sinceDate st = (r, st') \<Longrightarrow> sameControl st st'"
  by (auto simp: bulkSyncFailed_def sameControl_refl split: sum.splits dest: logError_sameControl)

lemma bulkSyncUsers_sameControl:
  assumes "bulkSyncUsers env limit offset sinceDate st = (r, st')"
  shows "sameControl st st'"
proof (cases "sourcePoolQuery env limit offset sinceDate")
  case (Inl err)
  then show ?thesis using assms bulkSyncFailed_sameControl
    by (simp add: bulkSyncUsers_def)
next
  case (Inr users)
  let ?st0 = "st\<lparr> trace := trace st @ [Queried limit offset users] \<rparr>"
  have s0: "sameControl st ?st0" by (simp add: sameControl_def)
  show ?thesis
  proof (cases "length users = 0")
    case True
    then have "st' = ?st0" using assms Inr by (simp add: bulkSyncUsers_def Let_def)
    then show ?thesis using s0 by simp
  next
    case False
    obtain r1 st1 where u: "syncUsers env users 0 0 ?st0 = (r1, st1)"
      by (cases "syncUsers env users 0 0 ?st0")
    have s1: "sameControl st st1"
      using s0 syncUsers_sameControl[OF u] by (rule sameControl_trans)
    show ?thesis
    proof (cases r1)
      case (Inl err)
      then have "bulkSyncFailed err limit offset sinceDate st1 = (r, st')"
        using assms Inr False u by (simp add: bulkSyncUsers_def Let_def)
      from s1 bulkSyncFailed_sameControl[OF this] show ?thesis by (rule sameControl_trans)
    next
      case (Inr counts)
      obtain sc ec where c: "counts = (sc, ec)" by (cases counts)
      have "st' = st1\<lparr> syncStats := (syncStats st1)\<lparr>
                                totalSynced := totalSynced (syncStats st1) + sc,
                                errors := errors (syncStats st1) + ec,
                                lastSyncTime := Some (clock st1) \<rparr> \<rparr>"
        using assms \<open>sourcePoolQuery env limit offset sinceDate = Inr users\<close> False u Inr c
        by (simp add: bulkSyncUsers_def Let_def)
      then have "sameControl st1 st'" by (simp add: sameControl_def)
      with s1 show ?thesis by (rule sameControl_trans)
    qed
  qed
qed

lemma syncLoop_sameControl:
  "syncLoop env limit offset sinceT st = (r, st') \<Longrightarrow> sameControl st st'"
proof (induction env limit offset sinceT st arbitrary: r st' rule: syncLoop.induct)
  case (1 env limit offset sinceT st)
  obtain r1 st1 where b: "bulkSyncUsers env limit offset (Some sinceT) st = (r1, st1)"
    by (cases "bulkSyncUsers env limit offset (Some sinceT) st")
  have s1: "sameControl st st1" using bulkSyncUsers_sameControl[OF b] .
  show ?case
  proof (cases r1)
    case (Inl err)
    then have "st' = st1" using "1.prems" b by (simp add: syncLoop.simps[of env limit offset])
    then show ?thesis using s1 by simp
  next
    case (Inr hasMore)
    show ?thesis
    proof (cases hasMore)
      case False
      then have "st' = st1" using "1.prems" b Inr by (simp add: syncLoop.simps[of env limit offset])
      then show ?thesis using s1 by simp
    next
      case True
      then have rec: "syncLoop env limit (offset + limit) sinceT st1 = (r, st')"
        using "1.prems" b Inr by (simp add: syncLoop.simps[of env limit offset])
      from "1.IH"[OF b[symmetric] Inr True rec] s1 show ?thesis by (rule sameControl_trans[rotated])
    qed
  qed
qed

lemma scheduleNextSync_effect:
  "scheduleNextSync intervalMin st =
     st\<lparr> timers := filter (\<lambda>tm. Some (timer_id tm) \<noteq> scheduledSyncTimeout st) (timers st) @
            [\<lparr> timer_id = nextTimer st, timer_callback = RunScheduledSyncCycle intervalMin,
               timer_due = clock st + intervalMin * 60 * 1000 \<rparr>],
         nextTimer := Suc (nextTimer st),
         scheduledSyncTimeout := Some (nextTimer st) \<rparr>"
  by (cases "scheduledSyncTimeout st")
     (simp_all add: scheduleNextSync_def setTimeout_def clearTimeout_def Let_def)

lemma finish_effect:
  "\<exists>st2. sameControl st st2 \<and>
     runScheduledSyncCycle_finish env p st =
       scheduleNextSync (pass_interval p)
         (st2\<lparr> isSyncInProgress := False,
               syncStats := (syncStats st2)\<lparr> scheduledSyncActive := False \<rparr>,
               running := remove1 p (running st2) \<rparr>)"
proof -
  obtain r st1 where l: "syncLoop env 500 0 (pass_since p) st = (r, st1)"
    by (cases "syncLoop env 500 0 (pass_since p) st")
  have s1: "sameControl st st1" using syncLoop_sameControl[OF l] .
  define st2 where "st2 = (case r of
                   Inr u \<Rightarrow> st1\<lparr> syncStats := (syncStats st1)\<lparr>
                                   lastSyncDuration := Some (clock st1 - pass_start p) \<rparr> \<rparr>
                 | Inl err \<Rightarrow> (case logError ''SCHEDULED_SYNC_FAILED'' None err [] st1 of
                                 Inr st' \<Rightarrow> st'
                               | Inl e \<Rightarrow> st1))"
  have "sameControl st1 st2"
    unfolding st2_def
    by (auto simp: sameControl_refl sameControl_def logError_def split: sum.splits if_splits)
  with s1 have "sameControl st st2" by (rule sameControl_trans)
  moreover have "runScheduledSyncCycle_finish env p st =
       scheduleNextSync (pass_interval p)
         (st2\<lparr> isSyncInProgress := False,
               syncStats := (syncStats st2)\<lparr> scheduledSyncActive := False \<rparr>,
               running := remove1 p (running st2) \<rparr>)"
    by (simp add: runScheduledSyncCycle_finish_def l st2_def Let_def)
  ultimately show ?thesis by blast
qed

lemma finish_control:
  "isSyncInProgress (runScheduledSyncCycle_finish env p st) = False \<and>
   running (runScheduledSyncCycle_finish env p st) = remove1 p (running st) \<and>
   isListening (runScheduledSyncCycle_finish env p st) = isListening st \<and>
   realtimeReconnectAttempts (runScheduledSyncCycle_finish env p st) = realtimeReconnectAttempts st \<and>
   maxReconnectAttempts (runScheduledSyncCycle_finish env p st) = maxReconnectAttempts st \<and>
   timers (runScheduledSyncCycle_finish env p st) =
     filter (\<lambda>tm. Some (timer_id tm) \<noteq> scheduledSyncTimeout st) (timers st) @
       [\<lparr> timer_id = nextTimer st, timer_callback = RunScheduledSyncCycle (pass_interval p),
          timer_due = clock (runScheduledSyncCycle_finish env p st) + pass_interval p * 60 * 1000 \<rparr>]"
proof -
  from finish_effect[of st env p] obtain st2 where s: "sameControl st st2"
    and e: "runScheduledSyncCycle_finish env p st =
       scheduleNextSync (pass_interval p)
         (st2\<lparr> isSyncInProgress := False,
               syncStats := (syncStats st2)\<lparr> scheduledSyncActive := False \<rparr>,
               running := remove1 p (running st2) \<rparr>)"
    by blast
  show ?thesis using s unfolding e scheduleNextSync_effect by (simp add: sameControl_def)
qed

lemma start_control:
  "runScheduledSyncCycle_start intervalMin st =
     (if isSyncInProgress st then scheduleNextSync intervalMin st
      else st\<lparr> isSyncInProgress := True,
               syncStats := (syncStats st)\<lparr> scheduledSyncActive := True \<rparr>,
               running := running st @
                 [\<lparr> pass_interval = intervalMin, pass_start = clock st,
                    pass_since = clock st - (intervalMin * syncWindowMultiplier st) * 60 * 1000 \<rparr>] \<rparr>)"
  by (simp add: runScheduledSyncCycle_start_def)

lemma attemptRealtimeReconnection_passes:
  "isSyncInProgress (attemptRealtimeReconnection st) = isSyncInProgress st \<and>
   running (attemptRealtimeReconnection st) = running st"
  by (simp add: attemptRealtimeReconnection_def setTimeout_def Let_def)

lemma startRealTimeSync_passes:
  "isSyncInProgress (snd (startRealTimeSync outcome st)) = isSyncInProgress st \<and>
   running (snd (startRealTimeSync outcome st)) = running st"
  by (auto simp: startRealTimeSync_def Let_def logError_def attemptRealtimeReconnection_passes
      split: option.splits sum.splits)

lemma dispatch_atMostOnePass:
  assumes "atMostOnePass st" and "dispatch ev st = Some st'"
  shows "atMostOnePass st'"
proof (cases ev)
  case (Tick t)
  then show ?thesis using assms by (auto simp: atMostOnePass_def split: if_splits)
next
  case (TimerFires h outcome)
  then obtain tm where f: "find (\<lambda>tm. timer_id tm = h) (timers st) = Some tm"
    and st': "st' = runCallback (timer_callback tm) outcome
                       (st\<lparr> timers := filter (\<lambda>x. timer_id x \<noteq> h) (timers st) \<rparr>)"
    using assms(2) by (auto split: option.splits if_splits)
  let ?s0 = "st\<lparr> timers := filter (\<lambda>x. timer_id x \<noteq> h) (timers st) \<rparr>"
  have a0: "atMostOnePass ?s0" using assms(1) by (simp add: atMostOnePass_def)
  show ?thesis
  proof (cases "timer_callback tm")
    case (RunScheduledSync iv)
    then show ?thesis using a0 unfolding st'
      by (auto simp: start_control scheduleNextSync_effect atMostOnePass_def split: if_splits)
  next
    case (RunScheduledSyncCycle iv)
    then show ?thesis using a0 unfolding st'
      by (auto simp: start_control scheduleNextSync_effect atMostOnePass_def split: if_splits)
  next
    case Reconnect
    then show ?thesis using a0 unfolding st'
      by (auto simp: atMostOnePass_def startRealTimeSync_passes split: if_splits)
  qed
next
  case (PassCompletes env p)
  then have p: "p \<in> set (running st)" and st': "st' = runScheduledSyncCycle_finish env p st"
    using assms(2) by (auto split: if_splits)
  from p assms(1) have "running st = [p]"
    by (cases "running st") (auto simp: atMostOnePass_def split: if_splits)
  then show ?thesis unfolding st' by (simp add: atMostOnePass_def finish_control)
next
  case ConnectionError
  then show ?thesis using assms
    by (auto simp: atMostOnePass_def onConnectionError_def attemptRealtimeReconnection_passes)
next
  case ConnectionEnd
  then show ?thesis using assms
    by (auto simp: atMostOnePass_def onConnectionEnd_def attemptRealtimeReconnection_passes split: if_splits)
qed

lemma runEvents_atMostOnePass:
  "atMostOnePass st \<Longrightarrow> runEvents evs st = Some st' \<Longrightarrow> atMostOnePass st'"
proof (induction evs arbitrary: st)
  case Nil
  then show ?case by simp
next
  case (Cons ev evs)
  then obtain st1 where d: "dispatch ev st = Some st1" and r: "runEvents evs st1 = Some st'"
    by (auto split: option.splits)
  from dispatch_atMostOnePass[OF Cons.prems(1) d] r Cons.IH show ?case by blast
qed

lemma attemptRealtimeReconnection_givenUp:
  "maxReconnectAttempts st \<le> int (realtimeReconnectAttempts st) \<Longrightarrow> attemptRealtimeReconnection st = st"
  by (simp add: attemptRealtimeReconnection_def)

lemma dispatch_givenUp:
  assumes "givenUp st" and "dispatch ev st = Some st'"
  shows "givenUp st'"
proof (cases ev)
  case (Tick t)
  then show ?thesis using assms by (auto simp: givenUp_def split: if_splits)
next
  case (TimerFires h outcome)
  then obtain tm where f: "find (\<lambda>tm. timer_id tm = h) (timers st) = Some tm"
    and st': "st' = runCallback (timer_callback tm) outcome
                       (st\<lparr> timers := filter (\<lambda>x. timer_id x \<noteq> h) (timers st) \<rparr>)"
    using assms(2) by (auto split: option.splits if_splits)
  let ?s0 = "st\<lparr> timers := filter (\<lambda>x. timer_id x \<noteq> h) (timers st) \<rparr>"
  have g0: "givenUp ?s0" using assms(1) by (auto simp: givenUp_def list_all_iff)
  have "tm \<in> set (timers st)" using f by (auto simp: find_Some_iff in_set_conv_nth)
  then have nr: "timer_callback tm \<noteq> Reconnect" using assms(1) by (auto simp: givenUp_def list_all_iff)
  show ?thesis
  proof (cases "timer_callback tm")
    case (RunScheduledSync iv)
    then show ?thesis using g0 unfolding st'
      by (auto simp: start_control scheduleNextSync_effect givenUp_def list_all_iff)
  next
    case (RunScheduledSyncCycle iv)
    then show ?thesis using g0 unfolding st'
      by (auto simp: start_control scheduleNextSync_effect givenUp_def list_all_iff)
  next
    case Reconnect
    then show ?thesis using nr by simp
  qed
next
  case (PassCompletes env p)
  then have st': "st' = runScheduledSyncCycle_finish env p st"
    using assms(2) by (auto split: if_splits)
  show ?thesis using assms(1) unfolding st'
    by (auto simp: givenUp_def finish_control list_all_iff)
next
  case ConnectionError
  then have "st' = attemptRealtimeReconnection
       (st\<lparr> isListening := False, syncStats := (syncStats st)\<lparr> realtimeSyncActive := False \<rparr> \<rparr>)"
    using assms(2) by (simp add: onConnectionError_def)
  then have "st' = st\<lparr> isListening := False, syncStats := (syncStats st)\<lparr> realtimeSyncActive := False \<rparr> \<rparr>"
    using assms(1) by (simp add: attemptRealtimeReconnection_givenUp givenUp_def)
  then show ?thesis using assms(1) by (simp add: givenUp_def)
next
  case ConnectionEnd
  then show ?thesis using assms by (simp add: onConnectionEnd_def givenUp_def)
qed

lemma runEvents_givenUp:
  "givenUp st \<Longrightarrow> runEvents evs st = Some st' \<Longrightarrow> givenUp st'"
proof (induction evs arbitrary: st)
  case Nil
  then show ?case by simp
next
  case (Cons ev evs)
  then obtain st1 where d: "dispatch ev st = Some st1" and r: "runEvents evs st1 = Some st'"
    by (auto split: option.splits)
  from dispatch_givenUp[OF Cons.prems(1) d] r Cons.IH show ?case by blast
qed

lemmas sys_eval = defaultEngine_def setTimeout_def clearTimeout_def scheduleNextSync_def
  startScheduledSync_def runScheduledSyncCycle_start_def attemptRealtimeReconnection_def
  startRealTimeSync_def onConnectionError_def onConnectionEnd_def logError_def backoffDelay_def
  Let_def

text \<open>
  C3. A scheduled trigger that finds \<open>isSyncInProgress\<close> set launches nothing: the passes
  in flight are the same as before, and the only effect is that the pending scheduling
  timer is replaced by one that is due a full interval (\<open>intervalMin\<close> minutes) after the
  trigger. And whatever events occur, in any order, the flag is set exactly while one
  pass is in flight and there are never two.
\<close>

theorem at_most_one_pass:
  "(isSyncInProgress st \<longrightarrow>
      runScheduledSyncCycle_start intervalMin st = scheduleNextSync intervalMin st \<and>
      isSyncInProgress (runScheduledSyncCycle_start intervalMin st) \<and>
      running (runScheduledSyncCycle_start intervalMin st) = running st \<and>
      timers (runScheduledSyncCycle_start intervalMin st) =
        filter (\<lambda>tm. Some (timer_id tm) \<noteq> scheduledSyncTimeout st) (timers st) @
          [\<lparr> timer_id = nextTimer st, timer_callback = RunScheduledSyncCycle intervalMin,
             timer_due = clock st + intervalMin * 60 * 1000 \<rparr>]) \<and>
   (atMostOnePass st \<and> runEvents evs st = Some st' \<longrightarrow>
      atMostOnePass st' \<and> length (running st') \<le> 1)"
proof (intro conjI impI)
  assume p: "isSyncInProgress st"
  then show "runScheduledSyncCycle_start intervalMin st = scheduleNextSync intervalMin st"
    by (simp add: start_control)
  show "isSyncInProgress (runScheduledSyncCycle_start intervalMin st)"
    using p by (simp add: start_control scheduleNextSync_effect)
  show "running (runScheduledSyncCycle_start intervalMin st) = running st"
    using p by (simp add: start_control scheduleNextSync_effect)
  show "timers (runScheduledSyncCycle_start intervalMin st) =
        filter (\<lambda>tm. Some (timer_id tm) \<noteq> scheduledSyncTimeout st) (timers st) @
          [\<lparr> timer_id = nextTimer st, timer_callback = RunScheduledSyncCycle intervalMin,
             timer_due = clock st + intervalMin * 60 * 1000 \<rparr>]"
    using p by (simp add: start_control scheduleNextSync_effect)
next
  assume a: "atMostOnePass st \<and> runEvents evs st = Some st'"
  then show "atMostOnePass st'" using runEvents_atMostOnePass by blast
  then show "length (running st') \<le> 1" by (auto simp: atMostOnePass_def split: if_splits)
qed

theorem at_most_one_pass_witness:
  "isSyncInProgress passInFlight \<and>
   running (runScheduledSyncCycle_start 1 passInFlight) = running passInFlight \<and>
   timers (runScheduledSyncCycle_start 1 passInFlight) =
     [\<lparr> timer_id = 0, timer_callback = RunScheduledSyncCycle 1, timer_due = 120000 \<rparr>] \<and>
   atMostOnePass startedTwice \<and>
   (\<exists>st'. runEvents [Tick 60000, TimerFires 0 None, TimerFires 1 None] startedTwice = Some st' \<and>
          isSyncInProgress st' \<and> length (running st') \<le> 1 \<and>
          timers st' = [\<lparr> timer_id = 2, timer_callback = RunScheduledSyncCycle 1, timer_due = 120000 \<rparr>])"
proof -
  have p: "isSyncInProgress passInFlight" "scheduledSyncTimeout passInFlight = None"
    "timers passInFlight = []" "nextTimer passInFlight = 0" "clock passInFlight = 60000"
    by (simp_all add: passInFlight_def sys_eval)
  note t = at_most_one_pass[of passInFlight 1 "[]" passInFlight, THEN conjunct1, rule_format, OF p(1)]
  have 1: "running (runScheduledSyncCycle_start 1 passInFlight) = running passInFlight"
    by (rule t[THEN conjunct2, THEN conjunct2, THEN conjunct1])
  have 2: "timers (runScheduledSyncCycle_start 1 passInFlight) =
     [\<lparr> timer_id = 0, timer_callback = RunScheduledSyncCycle 1, timer_due = 120000 \<rparr>]"
    using t[THEN conjunct2, THEN conjunct2, THEN conjunct2] unfolding p by simp
  have a: "atMostOnePass startedTwice"
    by (simp add: atMostOnePass_def startedTwice_def sys_eval)
  have "\<exists>st'. runEvents [Tick 60000, TimerFires 0 None, TimerFires 1 None] startedTwice = Some st' \<and>
          isSyncInProgress st' \<and>
          timers st' = [\<lparr> timer_id = 2, timer_callback = RunScheduledSyncCycle 1, timer_due = 120000 \<rparr>]"
    by (simp add: startedTwice_def sys_eval)
  then obtain st' where r: "runEvents [Tick 60000, TimerFires 0 None, TimerFires 1 None] startedTwice = Some st'"
    and f: "isSyncInProgress st'"
      "timers st' = [\<lparr> timer_id = 2, timer_callback = RunScheduledSyncCycle 1, timer_due = 120000 \<rparr>]"
    by blast
  have "length (running st') \<le> 1"
    using at_most_one_pass[of startedTwice 1 "[Tick 60000, TimerFires 0 None, TimerFires 1 None]" st'] a r
    by simp
  then show ?thesis using p(1) 1 2 a r f by blast
qed

text \<open>
  C7. Once the attempt counter has reached \<open>maxReconnectAttempts\<close>,
  \<open>attemptRealtimeReconnection\<close> changes nothing, so it schedules no timer; a connection
  that succeeds sets the counter to zero; and a service that has given up stays so
  whatever events occur.
\<close>

theorem reconnection_gives_up:
  "(maxReconnectAttempts st \<le> int (realtimeReconnectAttempts st) \<longrightarrow>
      attemptRealtimeReconnection st = st) \<and>
   (\<not> isListening st \<longrightarrow>
      fst (startRealTimeSync None st) = Inr () \<and>
      isListening (snd (startRealTimeSync None st)) \<and>
      realtimeReconnectAttempts (snd (startRealTimeSync None st)) = 0) \<and>
   (givenUp st \<and> runEvents evs st = Some st' \<longrightarrow> givenUp st')"
proof (intro conjI impI)
  assume "maxReconnectAttempts st \<le> int (realtimeReconnectAttempts st)"
  then show "attemptRealtimeReconnection st = st" by (rule attemptRealtimeReconnection_givenUp)
next
  assume n: "\<not> isListening st"
  then show "fst (startRealTimeSync None st) = Inr ()" by (simp add: startRealTimeSync_def Let_def)
  show "isListening (snd (startRealTimeSync None st))"
    using n by (simp add: startRealTimeSync_def Let_def)
  show "realtimeReconnectAttempts (snd (startRealTimeSync None st)) = 0"
    using n by (simp add: startRealTimeSync_def Let_def)
next
  assume "givenUp st \<and> runEvents evs st = Some st'"
  then show "givenUp st'" using runEvents_givenUp by blast
qed

theorem reconnection_gives_up_witness:
  "(\<exists>g. runEvents [ConnectionError, Tick 1000, TimerFires 0 (Some ''refused''), Tick 3000,
                    TimerFires 1 (Some ''refused'')] twoAttempts = Some g \<and>
        realtimeReconnectAttempts g = 2 \<and> givenUp g \<and> attemptRealtimeReconnection g = g \<and>
        (\<exists>g'. runEvents [ConnectionError, Tick 9000, ConnectionEnd] g = Some g' \<and> givenUp g')) \<and>
   \<not> isListening (onConnectionError defaultEngine) \<and>
   realtimeReconnectAttempts (onConnectionError defaultEngine) = 1 \<and>
   realtimeReconnectAttempts (snd (startRealTimeSync None (onConnectionError defaultEngine))) = 0"
proof -
  have "\<exists>g. runEvents [ConnectionError, Tick 1000, TimerFires 0 (Some ''refused''), Tick 3000,
                    TimerFires 1 (Some ''refused'')] twoAttempts = Some g \<and>
        realtimeReconnectAttempts g = 2 \<and> maxReconnectAttempts g = 2 \<and> \<not> isListening g \<and> timers g = [] \<and>
        clock g = 3000"
    by (simp add: twoAttempts_def sys_eval)
  then obtain g where r: "runEvents [ConnectionError, Tick 1000, TimerFires 0 (Some ''refused''), Tick 3000,
                    TimerFires 1 (Some ''refused'')] twoAttempts = Some g"
    and f: "realtimeReconnectAttempts g = 2" "maxReconnectAttempts g = 2" "\<not> isListening g" "timers g = []"
      "clock g = 3000"
    by blast
  have gu: "givenUp g" using f by (simp add: givenUp_def)
  have same: "attemptRealtimeReconnection g = g"
    using reconnection_gives_up[of g] f by simp
  have "\<exists>g'. runEvents [ConnectionError, Tick 9000, ConnectionEnd] g = Some g'"
    by (simp add: onConnectionError_def onConnectionEnd_def attemptRealtimeReconnection_def f)
  then obtain g' where r': "runEvents [ConnectionError, Tick 9000, ConnectionEnd] g = Some g'" by blast
  have gu': "givenUp g'"
    using reconnection_gives_up[of g "[ConnectionError, Tick 9000, ConnectionEnd]" g'] gu r' by simp
  have n: "\<not> isListening (onConnectionError defaultEngine)"
    "realtimeReconnectAttempts (onConnectionError defaultEngine) = 1"
    by (simp_all add: sys_eval)
  have z: "realtimeReconnectAttempts (snd (startRealTimeSync None (onConnectionError defaultEngine))) = 0"
    using reconnection_gives_up[of "onConnectionError defaultEngine"] n(1) by simp
  show ?thesis using r f(1) gu same r' gu' n z by blast
qed

end
